theory Spec2Isabelle
  imports Main "HOL-Library.Multiset" "HOL-Library.Sublist" "HOL-Library.AList"
    "HOL-Library.Char_ord" "HOL-Library.List_Lexorder"
begin

section \<open>Strings\<close>

text \<open>
  A Python \<open>str\<close> is a sequence of code points. The model uses \<open>string\<close> and reads a
  \<open>char\<close> as the code point of the same number, so it covers the code points below 256
  (Latin-1), which hold every column label of the importer (two labels have U+00E4,
  one has U+00E5). In that range the decimal digits that \<open>\d\<close> accepts are \<open>0\<close> to \<open>9\<close>,
  and string comparison by code point is the lexicographic order of \<open>Char_ord\<close> and
  \<open>List_Lexorder\<close>.
\<close>

definition isspace :: "char \<Rightarrow> bool" where
  \<comment> \<open>\<open>str.isspace\<close> on one code point below 256: TAB, LF, VT, FF, CR, FS, GS, RS, US,
      SPACE, NEL (U+0085), NBSP (U+00A0)\<close>
  "isspace c =
     (let n = (of_char c :: nat)
      in (9 \<le> n \<and> n \<le> 13) \<or> (28 \<le> n \<and> n \<le> 32) \<or> n = 133 \<or> n = 160)"

definition strip :: "string \<Rightarrow> string" where
  \<comment> \<open>\<open>s.strip()\<close>\<close>
  "strip s = rev (dropWhile isspace (rev (dropWhile isspace s)))"

fun replace_first :: "string \<Rightarrow> string \<Rightarrow> string \<Rightarrow> string" where
  \<comment> \<open>\<open>s.replace(old, new, 1)\<close>\<close>
  "replace_first old new [] = (if old = [] then new else [])"
| "replace_first old new (c # cs) =
     (if prefix old (c # cs) then new @ drop (length old) (c # cs)
      else c # replace_first old new cs)"

section \<open>File names\<close>

text \<open>
  The two patterns of \<open>import_csv_to_db.py\<close> are sequences of literals and of capturing
  groups that repeat one character class a fixed number of times, so matching is
  deterministic. \<open>re_match\<close> is \<open>Pattern.match\<close> for such a pattern written between
  \<open>^\<close> and \<open>$\<close>; it returns the captured groups. In Python \<open>$\<close> matches at the end of
  the string and also just before a line feed that ends the string.
\<close>

datatype cclass = Digit | Range char char

datatype piece = Lit string | Grp cclass nat

fun in_class :: "cclass \<Rightarrow> char \<Rightarrow> bool" where
  "in_class Digit c = (CHR ''0'' \<le> c \<and> c \<le> CHR ''9'')"
| "in_class (Range lo hi) c = (lo \<le> c \<and> c \<le> hi)"

fun re_match :: "piece list \<Rightarrow> string \<Rightarrow> string list \<Rightarrow> string list option" where
  "re_match [] s gs = (if s = [] \<or> s = [CHR 0x0A] then Some gs else None)"
| "re_match (Lit l # ps) s gs =
     (if prefix l s then re_match ps (drop (length l) s) gs else None)"
| "re_match (Grp k n # ps) s gs =
     (if n \<le> length s \<and> list_all (in_class k) (take n s)
      then re_match ps (drop n s) (gs @ [take n s]) else None)"

definition CURRENT_RE :: "piece list" where
  \<comment> \<open>\<open>^v85_(\d{8})_([1-8])\.csv$\<close>\<close>
  "CURRENT_RE =
     [Lit ''v85_'', Grp Digit 8, Lit ''_'', Grp (Range CHR ''1'' CHR ''8'') 1, Lit ''.csv'']"

definition HISTORY_RE :: "piece list" where
  \<comment> \<open>\<open>^v85_history_(\d{8})_([1-8])\.csv$\<close>\<close>
  "HISTORY_RE =
     [Lit ''v85_history_'', Grp Digit 8, Lit ''_'', Grp (Range CHR ''1'' CHR ''8'') 1,
      Lit ''.csv'']"

definition matches :: "piece list \<Rightarrow> string \<Rightarrow> bool" where
  "matches re s = (re_match re s [] \<noteq> None)"

definition group :: "piece list \<Rightarrow> string \<Rightarrow> nat \<Rightarrow> string" where
  \<comment> \<open>\<open>m.group(i)\<close> for \<open>i \<ge> 1\<close> of a match \<open>m\<close>; used only after \<open>assert m\<close>\<close>
  "group re s i = (case re_match re s [] of Some gs \<Rightarrow> gs ! (i - 1) | None \<Rightarrow> [])"

definition yyyymmdd_to_iso :: "string \<Rightarrow> string" where
  "yyyymmdd_to_iso d = take 4 d @ ''-'' @ take 2 (drop 4 d) @ ''-'' @ take 2 (drop 6 d)"

definition current_legacy_name :: "string \<Rightarrow> string" where
  \<comment> \<open>\<open>p.name.replace("v85_", "v86_", 1)\<close>\<close>
  "current_legacy_name name = replace_first ''v85_'' ''v86_'' name"

definition history_legacy_name :: "string \<Rightarrow> string" where
  \<comment> \<open>\<open>p.name.replace("v85_history_", "v86_history_", 1)\<close>\<close>
  "history_legacy_name name = replace_first ''v85_history_'' ''v86_history_'' name"

section \<open>Rows read from a CSV file\<close>

text \<open>
  \<open>csv.reader\<close> turns the text of a file into records, each a list of fields (an empty
  list for a blank line). \<open>csv.DictReader\<close> takes the first record as the field names and
  yields one dict per later record that is not empty: \<open>dict(zip(fieldnames, row))\<close>,
  and every field name beyond the end of a shorter row mapped to \<open>None\<close> (the
  \<open>restval\<close>). Fields beyond the field names go under the key \<open>None\<close>, which the
  importer never reads: it only calls \<open>r.get(label)\<close> with a text label. A file with no
  record at all has no field names and yields no dict.
\<close>

type_synonym raw_row = "string \<rightharpoonup> string option"

definition to_dict :: "string list \<Rightarrow> string list \<Rightarrow> raw_row" where
  \<comment> \<open>a later entry of a repeated field name replaces the earlier one\<close>
  "to_dict fieldnames row =
     map_of (rev (zip fieldnames (map Some row))) ++
     map_of (rev (map (\<lambda>key. (key, None)) (drop (length row) fieldnames)))"

definition dict_reader :: "string list list \<Rightarrow> raw_row list" where
  \<comment> \<open>\<open>list(csv.DictReader(f))\<close> on the records of \<open>f\<close>\<close>
  "dict_reader records =
     (case records of
        [] \<Rightarrow> []
      | fieldnames # data \<Rightarrow> map (to_dict fieldnames) (filter (\<lambda>row. row \<noteq> []) data))"

definition py_get :: "raw_row \<Rightarrow> string \<Rightarrow> string option" where
  \<comment> \<open>\<open>r.get(k)\<close>: \<open>None\<close> for a missing key, the stored value otherwise\<close>
  "py_get r k = (case r k of None \<Rightarrow> None | Some v \<Rightarrow> v)"

definition or_empty :: "string option \<Rightarrow> string" where
  \<comment> \<open>\<open>v or ""\<close>\<close>
  "or_empty v = (case v of None \<Rightarrow> [] | Some s \<Rightarrow> s)"

definition str_of :: "string \<Rightarrow> string" where
  \<comment> \<open>\<open>str(v)\<close> on a value that is text already\<close>
  "str_of s = s"

definition col_hastnamn :: string where
  "col_hastnamn = ''h'' @ [CHR 0xE4] @ ''stnamn''"

definition col_tranare :: string where
  "col_tranare = ''tr'' @ [CHR 0xE4] @ ''nare''"

definition col_distans_spar :: string where
  "col_distans_spar = ''distans:sp'' @ [CHR 0xE5] @ ''r''"

section \<open>The store\<close>

text \<open>
  The two tables the importer writes. The surrogate \<open>id\<close> column is never written by the
  importer; the position in the list stands for it. Table \<open>v85\<close> has a uniqueness
  constraint on \<open>(datum, avd, hastnamn)\<close>, the conflict target of the insert statement.
\<close>

record current_row =
  c_datum :: string
  c_avd :: string
  c_startnummer :: string
  c_hastnamn :: string
  c_kusk :: string
  c_tranare :: string
  c_v85_procent :: string
  c_v_odds :: string
  c_vagn :: string
  c_source_file :: string

record history_row =
  h_datum :: string
  h_avd :: string
  h_hastnamn :: string
  h_bana :: string
  h_kusk :: string
  h_placering :: string
  h_distans_spor :: string
  h_km_tid :: string
  h_skor :: string
  h_odds :: string
  h_pris :: string
  h_vagn :: string
  h_source_file :: string

record con =
  v85 :: "current_row list"
  v85_history :: "history_row list"

definition ckey :: "current_row \<Rightarrow> string \<times> string \<times> string" where
  "ckey x = (c_datum x, c_avd x, c_hastnamn x)"

definition unique_keys :: "con \<Rightarrow> bool" where
  \<comment> \<open>the uniqueness constraint of table \<open>v85\<close>\<close>
  "unique_keys con = distinct (map ckey (v85 con))"

definition delete_v85 :: "string \<Rightarrow> string \<Rightarrow> con \<Rightarrow> con" where
  \<comment> \<open>\<open>DELETE FROM v85 WHERE source_file IN (?, ?)\<close>\<close>
  "delete_v85 a b con =
     con\<lparr>v85 := filter (\<lambda>x. c_source_file x \<noteq> a \<and> c_source_file x \<noteq> b) (v85 con)\<rparr>"

fun upsert :: "current_row \<Rightarrow> current_row list \<Rightarrow> current_row list" where
  \<comment> \<open>\<open>INSERT INTO v85 ... ON CONFLICT(datum, avd, hastnamn) DO UPDATE SET ...\<close>\<close>
  "upsert r [] = [r]"
| "upsert r (x # xs) =
     (if ckey x = ckey r
      then x\<lparr>c_startnummer := c_startnummer r,
             c_kusk := c_kusk r,
             c_tranare := c_tranare r,
             c_v85_procent := c_v85_procent r,
             c_v_odds := c_v_odds r,
             c_vagn := c_vagn r,
             c_source_file := c_source_file r\<rparr> # xs
      else x # upsert r xs)"

definition insert_v85 :: "current_row \<Rightarrow> con \<Rightarrow> con" where
  "insert_v85 r con = con\<lparr>v85 := upsert r (v85 con)\<rparr>"

definition delete_v85_history :: "string \<Rightarrow> string \<Rightarrow> con \<Rightarrow> con" where
  \<comment> \<open>\<open>DELETE FROM v85_history WHERE source_file IN (?, ?)\<close>\<close>
  "delete_v85_history a b con =
     con\<lparr>v85_history :=
            filter (\<lambda>x. h_source_file x \<noteq> a \<and> h_source_file x \<noteq> b) (v85_history con)\<rparr>"

definition insert_v85_history :: "history_row \<Rightarrow> con \<Rightarrow> con" where
  \<comment> \<open>\<open>INSERT INTO v85_history (...) VALUES (...)\<close>\<close>
  "insert_v85_history r con = con\<lparr>v85_history := v85_history con @ [r]\<rparr>"

section \<open>Importing one file\<close>

definition current_values :: "string \<Rightarrow> string \<Rightarrow> string \<Rightarrow> raw_row \<Rightarrow> current_row" where
  \<comment> \<open>the parameter tuple of the insert in \<open>load_current\<close>\<close>
  "current_values game_date avd name r =
     \<lparr>c_datum = game_date,
      c_avd = avd,
      c_startnummer = strip (or_empty (py_get r ''startnummer'')),
      c_hastnamn = strip (or_empty (py_get r col_hastnamn)),
      c_kusk = strip (or_empty (py_get r ''kusk'')),
      c_tranare = strip (or_empty (py_get r col_tranare)),
      c_v85_procent = strip (or_empty (py_get r ''v85%'')),
      c_v_odds = strip (or_empty (py_get r ''v-odds'')),
      c_vagn = strip (or_empty (py_get r ''vagn'')),
      c_source_file = name\<rparr>"

definition history_values :: "string \<Rightarrow> string \<Rightarrow> raw_row \<Rightarrow> history_row" where
  \<comment> \<open>the parameter tuple of the insert in \<open>load_history\<close>\<close>
  "history_values avd name r =
     \<lparr>h_datum = strip (or_empty (py_get r ''datum'')),
      h_avd = avd,
      h_hastnamn = strip (or_empty (py_get r col_hastnamn)),
      h_bana = strip (or_empty (py_get r ''bana'')),
      h_kusk = strip (or_empty (py_get r ''kusk'')),
      h_placering = strip (str_of (or_empty (py_get r ''placering''))),
      h_distans_spor = strip (or_empty (py_get r col_distans_spar)),
      h_km_tid = strip (or_empty (py_get r ''KM-tid'')),
      h_skor = strip (or_empty (py_get r ''skor'')),
      h_odds = strip (str_of (or_empty (py_get r ''odds''))),
      h_pris = strip (str_of (or_empty (py_get r ''pris''))),
      h_vagn = strip (or_empty (py_get r ''vagn'')),
      h_source_file = name\<rparr>"

definition import_current_file :: "string \<Rightarrow> raw_row list \<Rightarrow> con \<Rightarrow> con" where
  \<comment> \<open>the body of the loop of \<open>load_current\<close> once the rows of the file are read\<close>
  "import_current_file name rows con =
     (let game_date = yyyymmdd_to_iso (group CURRENT_RE name 1);
          avd = group CURRENT_RE name 2;
          legacy_name = current_legacy_name name
      in fold (\<lambda>r. insert_v85 (current_values game_date avd name r)) rows
           (delete_v85 name legacy_name con))"

definition import_history_file :: "string \<Rightarrow> raw_row list \<Rightarrow> con \<Rightarrow> con" where
  \<comment> \<open>the body of the loop of \<open>load_history\<close> once the rows of the file are read\<close>
  "import_history_file name rows con =
     (let avd = group HISTORY_RE name 2;
          legacy_name = history_legacy_name name
      in fold (\<lambda>r. insert_v85_history (history_values avd name r)) rows
           (delete_v85_history name legacy_name con))"

section \<open>A run over a directory\<close>

text \<open>
  A directory entry has a name, is a regular file or not, and, when it is opened and
  read through \<open>csv.reader\<close>, either gives its records or raises (the file cannot be
  opened, is not UTF-8, is not CSV): \<open>contents\<close> is \<open>None\<close> then. The names of the
  entries of one directory are distinct. Entries are sorted by name, as paths of one
  directory are.
\<close>

record dir_entry =
  path_name :: string
  is_file :: bool
  contents :: "string list list option"

datatype error = ReadError string

fun load_current_loop :: "con \<Rightarrow> dir_entry list \<Rightarrow> nat \<Rightarrow> error + con \<times> nat" where
  "load_current_loop con [] imported_rows = Inr (con, imported_rows)"
| "load_current_loop con (p # files) imported_rows =
     (case contents p of
        None \<Rightarrow> Inl (ReadError (path_name p))
      | Some records \<Rightarrow>
          let rows = dict_reader records
          in load_current_loop (import_current_file (path_name p) rows con) files
               (imported_rows + length rows))"

definition load_current :: "con \<Rightarrow> dir_entry list \<Rightarrow> error + con \<times> nat \<times> nat" where
  "load_current con csv_dir =
     (let files = sort_key path_name
                    (filter (\<lambda>p. is_file p \<and> matches CURRENT_RE (path_name p)) csv_dir)
      in case load_current_loop con files 0 of
           Inl e \<Rightarrow> Inl e
         | Inr (con', imported_rows) \<Rightarrow> Inr (con', length files, imported_rows))"

fun load_history_loop :: "con \<Rightarrow> dir_entry list \<Rightarrow> nat \<Rightarrow> error + con \<times> nat" where
  "load_history_loop con [] imported_rows = Inr (con, imported_rows)"
| "load_history_loop con (p # files) imported_rows =
     (case contents p of
        None \<Rightarrow> Inl (ReadError (path_name p))
      | Some records \<Rightarrow>
          let rows = dict_reader records
          in load_history_loop (import_history_file (path_name p) rows con) files
               (imported_rows + length rows))"

definition load_history :: "con \<Rightarrow> dir_entry list \<Rightarrow> error + con \<times> nat \<times> nat" where
  "load_history con csv_dir =
     (let files = sort_key path_name
                    (filter (\<lambda>p. is_file p \<and> matches HISTORY_RE (path_name p)) csv_dir)
      in case load_history_loop con files 0 of
           Inl e \<Rightarrow> Inl e
         | Inr (con', imported_rows) \<Rightarrow> Inr (con', length files, imported_rows))"

text \<open>
  \<open>main\<close> runs both loaders inside \<open>with sqlite3.connect(db_path) as con\<close>: when the block
  ends normally the transaction is committed, when an exception leaves it the
  transaction is rolled back. The result is the committed store and either the
  exception or the four counters that are printed.
\<close>

definition main :: "con \<Rightarrow> dir_entry list \<Rightarrow> bool \<Rightarrow> con \<times> (error + nat \<times> nat \<times> nat \<times> nat)" where
  "main db csv_dir skip_history =
     (case load_current db csv_dir of
        Inl e \<Rightarrow> (db, Inl e)
      | Inr (con1, cur_files, cur_rows) \<Rightarrow>
          if skip_history then (con1, Inr (cur_files, cur_rows, 0, 0))
          else (case load_history con1 csv_dir of
                  Inl e \<Rightarrow> (db, Inl e)
                | Inr (con2, hist_files, hist_rows) \<Rightarrow>
                    (con2, Inr (cur_files, cur_rows, hist_files, hist_rows))))"

section \<open>Collecting history rows\<close>

text \<open>
  \<open>collect_history_rows\<close> of \<open>get_v85_history.py\<close>. A start of the race gives the name and
  the id of its horse (\<open>None\<close> where the JSON has no value). \<open>fetch_json\<close> is the network
  call: for a horse id it returns the records of the reply, or raises (\<open>None\<close>). A record
  carries its date, by which the rows are sorted, and the nine other values that the
  formatting helpers compute from it; they are copied unchanged into the row.
\<close>

record start =
  s_name :: "string option"
  s_id :: "int option"

record 'a fetched =
  f_date :: string
  f_formatted :: 'a

record 'a out_row =
  hastnamn :: string
  datum :: string
  formatted :: 'a

function str_nat :: "nat \<Rightarrow> string" where
  "str_nat n =
     (if n < 10 then [char_of (48 + n)] else str_nat (n div 10) @ [char_of (48 + n mod 10)])"
  by pat_completeness auto
termination
  by (relation "measure id") auto

declare str_nat.simps [simp del]

definition str_int :: "int \<Rightarrow> string" where
  \<comment> \<open>\<open>str(i)\<close>, as the f-string formats an integer\<close>
  "str_int i = (if i < 0 then ''-'' @ str_nat (nat (- i)) else str_nat (nat i))"

definition sort_reverse :: "('a \<Rightarrow> 'k::linorder) \<Rightarrow> 'a list \<Rightarrow> 'a list" where
  \<comment> \<open>\<open>xs.sort(key=f, reverse=True)\<close>: the list is reversed, sorted by a stable sort and
      reversed again\<close>
  "sort_reverse f xs = rev (sort_key f (rev xs))"

definition slice_to :: "int \<Rightarrow> 'a list \<Rightarrow> 'a list" where
  \<comment> \<open>\<open>xs[:n]\<close>\<close>
  "slice_to n xs = (if 0 \<le> n then take (nat n) xs else take (length xs - nat (- n)) xs)"

definition truthy_id :: "int option \<Rightarrow> bool" where
  \<comment> \<open>\<open>not horse_id\<close> is false\<close>
  "truthy_id i = (case i of None \<Rightarrow> False | Some n \<Rightarrow> n \<noteq> 0)"

definition horse_name_of :: "string option \<Rightarrow> int \<Rightarrow> string" where
  \<comment> \<open>the name under which the rows of a start are filed\<close>
  "horse_name_of name horse_id =
     (let horse_name = strip (or_empty name)
      in if horse_name = [] then ''horse_'' @ str_int horse_id else horse_name)"

definition horse_rows_of :: "string \<Rightarrow> 'a fetched list \<Rightarrow> 'a out_row list" where
  "horse_rows_of horse_name records =
     map (\<lambda>rec. \<lparr>hastnamn = horse_name, datum = f_date rec, formatted = f_formatted rec\<rparr>)
       records"

fun collect_loop ::
  "(int \<Rightarrow> 'a fetched list option) \<Rightarrow> int \<Rightarrow> start list \<Rightarrow>
   (string \<times> 'a out_row list) list \<Rightarrow> (string \<times> 'a out_row list) list option" where
  "collect_loop fetch_json max_history_per_horse [] by_horse = Some by_horse"
| "collect_loop fetch_json max_history_per_horse (s # starts) by_horse =
     (if \<not> truthy_id (s_id s) then
        collect_loop fetch_json max_history_per_horse starts by_horse
      else
        (let horse_id = (case s_id s of Some i \<Rightarrow> i | None \<Rightarrow> 0);
             horse_name = horse_name_of (s_name s) horse_id
         in case fetch_json horse_id of
              None \<Rightarrow> None
            | Some records \<Rightarrow>
                let horse_rows = sort_reverse datum (horse_rows_of horse_name records)
                in collect_loop fetch_json max_history_per_horse starts
                     (AList.update horse_name (slice_to max_history_per_horse horse_rows)
                        by_horse)))"

definition collect_history_rows ::
  "(int \<Rightarrow> 'a fetched list option) \<Rightarrow> start list \<Rightarrow> int \<Rightarrow> 'a out_row list option" where
  "collect_history_rows fetch_json starts max_history_per_horse =
     (case collect_loop fetch_json max_history_per_horse starts [] of
        None \<Rightarrow> None
      | Some by_horse \<Rightarrow>
          Some (concat (map (\<lambda>horse_name. case map_of by_horse horse_name of
                                            Some rows \<Rightarrow> rows | None \<Rightarrow> [])
                          (sort (map fst by_horse)))))"

section \<open>Notions used in the statements\<close>

fun last_with :: "('a \<Rightarrow> bool) \<Rightarrow> 'a list \<Rightarrow> 'a option" where
  \<comment> \<open>the last element of a list that satisfies a predicate\<close>
  "last_with P [] = None"
| "last_with P (x # xs) =
     (case last_with P xs of Some y \<Rightarrow> Some y | None \<Rightarrow> if P x then Some x else None)"

definition trimmed :: "string \<Rightarrow> bool" where
  \<comment> \<open>no white space at either end\<close>
  "trimmed s = (s = [] \<or> (\<not> isspace (hd s) \<and> \<not> isspace (last s)))"

definition current_columns :: "(string \<times> (current_row \<Rightarrow> string)) list" where
  \<comment> \<open>the CSV label and the column of each value that \<open>load_current\<close> takes from a row\<close>
  "current_columns =
     [(''startnummer'', c_startnummer), (col_hastnamn, c_hastnamn), (''kusk'', c_kusk),
      (col_tranare, c_tranare), (''v85%'', c_v85_procent), (''v-odds'', c_v_odds),
      (''vagn'', c_vagn)]"

definition history_columns :: "(string \<times> (history_row \<Rightarrow> string)) list" where
  \<comment> \<open>the CSV label and the column of each value that \<open>load_history\<close> takes from a row\<close>
  "history_columns =
     [(''datum'', h_datum), (col_hastnamn, h_hastnamn), (''bana'', h_bana), (''kusk'', h_kusk),
      (''placering'', h_placering), (col_distans_spar, h_distans_spor), (''KM-tid'', h_km_tid),
      (''skor'', h_skor), (''odds'', h_odds), (''pris'', h_pris), (''vagn'', h_vagn)]"

definition valid_starts :: "start list \<Rightarrow> start list" where
  \<comment> \<open>the starts that are not skipped\<close>
  "valid_starts starts = filter (\<lambda>s. truthy_id (s_id s)) starts"

definition start_id :: "start \<Rightarrow> int" where
  "start_id s = (case s_id s of Some i \<Rightarrow> i | None \<Rightarrow> 0)"

definition start_name :: "start \<Rightarrow> string" where
  "start_name s = horse_name_of (s_name s) (start_id s)"

definition start_rows :: "(int \<Rightarrow> 'a fetched list option) \<Rightarrow> start \<Rightarrow> 'a out_row list" where
  \<comment> \<open>the rows built from the records fetched for a start, in the order of the reply\<close>
  "start_rows fetch_json s =
     (case fetch_json (start_id s) of
        None \<Rightarrow> []
      | Some records \<Rightarrow> horse_rows_of (start_name s) records)"

definition rows_of :: "dir_entry \<Rightarrow> raw_row list" where
  \<comment> \<open>the rows read from a file; none when reading raises\<close>
  "rows_of p = (case contents p of Some records \<Rightarrow> dict_reader records | None \<Rightarrow> [])"

definition current_files :: "dir_entry list \<Rightarrow> dir_entry list" where
  \<comment> \<open>\<open>files\<close> of \<open>load_current\<close>\<close>
  "current_files csv_dir =
     sort_key path_name (filter (\<lambda>p. is_file p \<and> matches CURRENT_RE (path_name p)) csv_dir)"

definition history_files :: "dir_entry list \<Rightarrow> dir_entry list" where
  \<comment> \<open>\<open>files\<close> of \<open>load_history\<close>\<close>
  "history_files csv_dir =
     sort_key path_name (filter (\<lambda>p. is_file p \<and> matches HISTORY_RE (path_name p)) csv_dir)"

definition import_current_files :: "dir_entry list \<Rightarrow> con \<Rightarrow> con" where
  "import_current_files files = fold (\<lambda>p. import_current_file (path_name p) (rows_of p)) files"

definition import_history_files :: "dir_entry list \<Rightarrow> con \<Rightarrow> con" where
  "import_history_files files = fold (\<lambda>p. import_history_file (path_name p) (rows_of p)) files"

definition total_rows :: "dir_entry list \<Rightarrow> nat" where
  "total_rows files = sum_list (map (\<lambda>p. length (rows_of p)) files)"

definition run_ok :: "dir_entry list \<Rightarrow> bool \<Rightarrow> bool" where
  \<comment> \<open>every file that the run opens can be read\<close>
  "run_ok csv_dir skip_history =
     ((\<forall>p\<in>set (current_files csv_dir). contents p \<noteq> None) \<and>
      (skip_history \<or> (\<forall>p\<in>set (history_files csv_dir). contents p \<noteq> None)))"

definition current_rows_of :: "dir_entry \<Rightarrow> current_row list" where
  \<comment> \<open>the rows that \<open>load_current\<close> writes for a file\<close>
  "current_rows_of p =
     map (current_values (yyyymmdd_to_iso (group CURRENT_RE (path_name p) 1))
            (group CURRENT_RE (path_name p) 2) (path_name p))
       (rows_of p)"

definition history_rows_of :: "dir_entry \<Rightarrow> history_row list" where
  \<comment> \<open>the rows that \<open>load_history\<close> writes for a file\<close>
  "history_rows_of p =
     map (history_values (group HISTORY_RE (path_name p) 2) (path_name p)) (rows_of p)"

definition current_kept :: "dir_entry \<Rightarrow> current_row \<Rightarrow> bool" where
  \<comment> \<open>the row is not deleted when the file is imported\<close>
  "current_kept p x =
     (c_source_file x \<noteq> path_name p \<and> c_source_file x \<noteq> current_legacy_name (path_name p))"

definition history_kept :: "dir_entry \<Rightarrow> history_row \<Rightarrow> bool" where
  "history_kept p x =
     (h_source_file x \<noteq> path_name p \<and> h_source_file x \<noteq> history_legacy_name (path_name p))"

definition normalized :: "string option option \<Rightarrow> string \<Rightarrow> bool" where
  \<comment> \<open>\<open>v\<close> is the stored text for the raw entry of a row: empty for a missing key or a
      \<open>None\<close> value, the text without its surrounding white space otherwise\<close>
  "normalized raw v =
     (trimmed v \<and>
      (case raw of
         None \<Rightarrow> v = []
       | Some None \<Rightarrow> v = []
       | Some (Some s) \<Rightarrow>
           \<exists>ws1 ws2. list_all isspace ws1 \<and> list_all isspace ws2 \<and> s = ws1 @ v @ ws2))"

definition kept_rows :: "(int \<Rightarrow> 'a fetched list option) \<Rightarrow> int \<Rightarrow> start \<Rightarrow> 'a out_row list" where
  \<comment> \<open>what \<open>by_horse\<close> receives for a start\<close>
  "kept_rows fetch_json n s = slice_to n (sort_reverse datum (start_rows fetch_json s))"

section \<open>Example data\<close>

text \<open>
  A small directory and store on which the statements below are evaluated.
\<close>

definition ex_records :: "string list list" where
  \<comment> \<open>a header and one line; the line has no field for the last label\<close>
  "ex_records = [[''startnummer'', col_hastnamn, ''v-odds'', ''kusk''], [''1'', '' Odin '', ''3.50'']]"

definition ex_row :: raw_row where
  "ex_row = to_dict [''startnummer'', col_hastnamn, ''v-odds'', ''kusk''] [''1'', '' Odin '', ''3.50'']"

definition ex_current :: dir_entry where
  "ex_current =
     \<lparr>path_name = ''v85_20260101_1.csv'', is_file = True, contents = Some ex_records\<rparr>"

definition ex_history_records :: "string list list" where
  "ex_history_records = [[col_hastnamn, ''datum'', ''placering''], [''Odin'', ''2025-12-24'', '' 1'']]"

definition ex_history_row :: raw_row where
  "ex_history_row = to_dict [col_hastnamn, ''datum'', ''placering''] [''Odin'', ''2025-12-24'', '' 1'']"

definition ex_history :: dir_entry where
  "ex_history =
     \<lparr>path_name = ''v85_history_20260101_1.csv'', is_file = True,
      contents = Some ex_history_records\<rparr>"

definition ex_unreadable :: dir_entry where
  "ex_unreadable =
     \<lparr>path_name = ''v85_history_20260102_1.csv'', is_file = True, contents = None\<rparr>"

definition ex_other :: dir_entry where
  "ex_other = \<lparr>path_name = ''notes.txt'', is_file = True, contents = None\<rparr>"

definition ex_stored :: "string \<Rightarrow> current_row" where
  "ex_stored source =
     \<lparr>c_datum = ''2026-01-01'', c_avd = ''1'', c_startnummer = ''1'', c_hastnamn = ''Odin'',
      c_kusk = ''A'', c_tranare = ''B'', c_v85_procent = ''10%'', c_v_odds = ''3.00'',
      c_vagn = ''Va'', c_source_file = source\<rparr>"

definition ex_written :: current_row where
  "ex_written =
     \<lparr>c_datum = ''2026-01-01'', c_avd = ''1'', c_startnummer = ''1'', c_hastnamn = ''Odin'',
      c_kusk = [], c_tranare = [], c_v85_procent = [], c_v_odds = ''3.50'',
      c_vagn = [], c_source_file = ''v85_20260101_1.csv''\<rparr>"

definition ex_db :: "string \<Rightarrow> con" where
  "ex_db source = \<lparr>v85 = [ex_stored source], v85_history = []\<rparr>"

definition ex_history_written :: history_row where
  "ex_history_written =
     \<lparr>h_datum = ''2025-12-24'', h_avd = ''1'', h_hastnamn = ''Odin'', h_bana = [], h_kusk = [],
      h_placering = ''1'', h_distans_spor = [], h_km_tid = [], h_skor = [], h_odds = [],
      h_pris = [], h_vagn = [], h_source_file = ''v85_history_20260101_1.csv''\<rparr>"

definition ex_dir :: "dir_entry list" where
  "ex_dir = [ex_other, ex_history, ex_current]"

definition ex_db1 :: con where
  "ex_db1 = \<lparr>v85 = [ex_written], v85_history = [ex_history_written]\<rparr>"

definition ex_start :: "string \<Rightarrow> int \<Rightarrow> start" where
  "ex_start name i = \<lparr>s_name = Some name, s_id = Some i\<rparr>"

definition ex_result :: "string \<Rightarrow> unit fetched" where
  "ex_result d = \<lparr>f_date = d, f_formatted = ()\<rparr>"

definition ex_out :: "string \<Rightarrow> string \<Rightarrow> unit out_row" where
  "ex_out name d = \<lparr>hastnamn = name, datum = d, formatted = ()\<rparr>"

definition ex_fetch :: "int \<Rightarrow> unit fetched list option" where
  "ex_fetch i =
     (if i = 1 then
        Some (map ex_result
          [''2026-01-03'', ''2026-01-08'', ''2026-01-01'', ''2026-01-06'', ''2026-01-02'',
           ''2026-01-07'', ''2026-01-05'', ''2026-01-04''])
      else if i = 2 then Some [ex_result ''2025-12-24'']
      else Some [])"

definition ex_empty :: dir_entry where
  \<comment> \<open>a file with no line at all, so with no header\<close>
  "ex_empty = \<lparr>path_name = ''v85_20260101_1.csv'', is_file = True, contents = Some []\<rparr>"

section \<open>Recognised names\<close>

lemma matches_CURRENT_RE_prefix: "matches CURRENT_RE s \<Longrightarrow> \<exists>rest. s = ''v85_'' @ rest"
  by (auto simp: matches_def CURRENT_RE_def prefix_def split: if_splits)

lemma matches_HISTORY_RE_prefix:
  "matches HISTORY_RE s \<Longrightarrow> \<exists>rest. s = ''v85_history_'' @ rest"
  by (auto simp: matches_def HISTORY_RE_def prefix_def split: if_splits)

lemma current_legacy_name_v85: "current_legacy_name (''v85_'' @ rest) = ''v86_'' @ rest"
  by (simp add: current_legacy_name_def)

lemma history_legacy_name_v85:
  "history_legacy_name (''v85_history_'' @ rest) = ''v86_history_'' @ rest"
  by (simp add: history_legacy_name_def)

lemma current_legacy_not_recognized:
  assumes "matches CURRENT_RE s" and "matches CURRENT_RE t"
  shows "current_legacy_name s \<noteq> t"
proof -
  obtain a b where "s = ''v85_'' @ a" and "t = ''v85_'' @ b"
    using assms matches_CURRENT_RE_prefix by blast
  then show ?thesis
    using current_legacy_name_v85 [of a] by simp
qed

lemma history_legacy_not_recognized:
  assumes "matches HISTORY_RE s" and "matches HISTORY_RE t"
  shows "history_legacy_name s \<noteq> t"
proof -
  obtain a b where "s = ''v85_history_'' @ a" and "t = ''v85_history_'' @ b"
    using assms matches_HISTORY_RE_prefix by blast
  then show ?thesis
    using history_legacy_name_v85 [of a] by simp
qed

lemma not_both_kinds: "matches CURRENT_RE s \<Longrightarrow> \<not> matches HISTORY_RE s"
  by (auto simp: matches_def CURRENT_RE_def HISTORY_RE_def prefix_def split: if_splits)

lemma re_match_CURRENT_RE_exact:
  assumes "length d = 8" and "list_all (in_class Digit) d"
    and "in_class (Range CHR ''1'' CHR ''8'') a"
  shows "re_match CURRENT_RE (''v85_'' @ d @ ''_'' @ [a] @ ''.csv'') [] = Some [d, [a]]"
  using assms by (simp add: CURRENT_RE_def)

lemma re_match_HISTORY_RE_exact:
  assumes "length d = 8" and "list_all (in_class Digit) d"
    and "in_class (Range CHR ''1'' CHR ''8'') a"
  shows "re_match HISTORY_RE (''v85_history_'' @ d @ ''_'' @ [a] @ ''.csv'') [] = Some [d, [a]]"
  using assms by (simp add: HISTORY_RE_def)

lemma matches_CURRENT_RE_iff:
  "matches CURRENT_RE s \<longleftrightarrow>
     (\<exists>d a. length d = 8 \<and> list_all (in_class Digit) d \<and> in_class (Range CHR ''1'' CHR ''8'') a \<and>
        (s = ''v85_'' @ d @ ''_'' @ [a] @ ''.csv'' \<or>
         s = ''v85_'' @ d @ ''_'' @ [a] @ ''.csv'' @ [CHR 0x0A]))"
  (is "?L \<longleftrightarrow> ?R")
proof
  assume ?L
  then obtain r1 where s: "s = ''v85_'' @ r1"
    using matches_CURRENT_RE_prefix by blast
  define d where "d = take 8 r1"
  define r2 where "r2 = drop 8 r1"
  from \<open>?L\<close> have 1: "8 \<le> length r1" "list_all (in_class Digit) d"
    and 2: "prefix ''_'' r2"
    by (auto simp: matches_def CURRENT_RE_def s d_def r2_def split: if_splits)
  then obtain r3 where r2: "r2 = ''_'' @ r3" by (auto simp: prefix_def)
  from \<open>?L\<close> have 3: "1 \<le> length r3" "list_all (in_class (Range CHR ''1'' CHR ''8'')) (take 1 r3)"
    and 4: "prefix ''.csv'' (drop 1 r3)"
    using r2 1 by (auto simp: matches_def CURRENT_RE_def s d_def r2_def split: if_splits)
  then obtain a r4 where r3: "r3 = a # r4" by (cases r3) auto
  from 4 obtain r5 where r4: "r4 = ''.csv'' @ r5" by (auto simp: prefix_def r3)
  from \<open>?L\<close> have 5: "r5 = [] \<or> r5 = [CHR 0x0A]"
    using 1 r2 r3 r4 by (auto simp: matches_def CURRENT_RE_def s d_def r2_def split: if_splits)
  have "r1 = d @ r2" by (simp add: d_def r2_def)
  then have "s = ''v85_'' @ d @ ''_'' @ [a] @ ''.csv'' @ r5"
    by (simp add: s r2 r3 r4)
  moreover have "length d = 8" using 1 by (simp add: d_def)
  moreover have "in_class (Range CHR ''1'' CHR ''8'') a" using 3 r3 by simp
  ultimately show ?R using 1(2) 5 by auto
next
  assume ?R
  then show ?L
    by (auto simp: matches_def CURRENT_RE_def)
qed

lemma yyyymmdd_to_iso_slices:
  "length d = 8 \<Longrightarrow>
   yyyymmdd_to_iso d = take 4 d @ ''-'' @ take 2 (drop 4 d) @ ''-'' @ drop 6 d"
  by (simp add: yyyymmdd_to_iso_def)

text \<open>
  C7 (naming recognition). A name is taken as a Current snapshot exactly when it is
  \<open>v85_\<close>, eight digits, \<open>_\<close>, one digit from 1 to 8 and \<open>.csv\<close>, and the date is cut
  into ISO form without any calendar check (\<open>matches_CURRENT_RE_iff\<close>,
  \<open>re_match_CURRENT_RE_exact\<close>, \<open>yyyymmdd_to_iso_slices\<close>): except that \<open>$\<close> also
  matches before a final line feed. The name \<open>v85_20260101_1.csv\<close> followed by a line
  feed is not of the exact form, and both patterns accept it with the groups of the name
  without the line feed.
\<close>

theorem name_with_trailing_line_feed_accepted:
  "re_match CURRENT_RE (''v85_20260101_1.csv'' @ [CHR 0x0A]) [] = Some [''20260101'', ''1''] \<and>
   re_match HISTORY_RE (''v85_history_20260101_1.csv'' @ [CHR 0x0A]) [] =
     Some [''20260101'', ''1'']"
  by (simp add: CURRENT_RE_def HISTORY_RE_def)

section \<open>The upsert and the import of one file\<close>

lemma upsert_update_eq:
  "ckey x = ckey r \<Longrightarrow>
   x\<lparr>c_startnummer := c_startnummer r, c_kusk := c_kusk r, c_tranare := c_tranare r,
     c_v85_procent := c_v85_procent r, c_v_odds := c_v_odds r, c_vagn := c_vagn r,
     c_source_file := c_source_file r\<rparr> = r"
  by (cases x, cases r) (simp add: ckey_def)

lemma upsert_conv:
  "upsert r (x # xs) = (if ckey x = ckey r then r # xs else x # upsert r xs)"
  by (simp add: upsert_update_eq)

declare upsert.simps(2) [simp del]

lemma filter_key_upsert:
  "distinct (map ckey T) \<Longrightarrow>
   filter (\<lambda>x. ckey x = k) (upsert r T) =
     (if k = ckey r then [r] else filter (\<lambda>x. ckey x = k) T)"
proof (induction T)
  case Nil
  then show ?case by auto
next
  case (Cons x T)
  have none: "filter (\<lambda>y. ckey y = ckey r) T = []" if "ckey x = ckey r"
  proof -
    have "ckey r \<notin> ckey ` set T"
      using Cons.prems that by simp
    then show ?thesis
      by (force simp: filter_empty_conv image_iff)
  qed
  show ?case
    using Cons none by (auto simp: upsert_conv)
qed

lemma set_upsert_keys: "ckey ` set (upsert r T) = insert (ckey r) (ckey ` set T)"
  by (induction T) (auto simp: upsert_conv)

lemma distinct_upsert:
  "distinct (map ckey T) \<Longrightarrow> distinct (map ckey (upsert r T))"
proof (induction T)
  case Nil
  then show ?case by simp
next
  case (Cons x T)
  then show ?case
    using set_upsert_keys [of r T] by (auto simp: upsert_conv)
qed

lemma v85_fold_insert:
  "v85 (fold (\<lambda>r. insert_v85 (f r)) rows con) = fold (\<lambda>r. upsert (f r)) rows (v85 con)"
  by (induction rows arbitrary: con) (simp_all add: insert_v85_def)

lemma v85_history_fold_insert:
  "v85_history (fold (\<lambda>r. insert_v85 (f r)) rows con) = v85_history con"
  by (induction rows arbitrary: con) (simp_all add: insert_v85_def)

lemma distinct_fold_upsert:
  "distinct (map ckey T) \<Longrightarrow> distinct (map ckey (fold (\<lambda>r. upsert (f r)) rows T))"
  by (induction rows arbitrary: T) (simp_all add: distinct_upsert)

lemma filter_key_fold_upsert:
  "distinct (map ckey T) \<Longrightarrow>
   filter (\<lambda>x. ckey x = k) (fold (\<lambda>r. upsert (f r)) rows T) =
     (case last_with (\<lambda>r. ckey (f r) = k) rows of
        Some r \<Rightarrow> [f r]
      | None \<Rightarrow> filter (\<lambda>x. ckey x = k) T)"
proof (induction rows arbitrary: T)
  case Nil
  then show ?case by simp
next
  case (Cons r rows)
  have "filter (\<lambda>x. ckey x = k) (fold (\<lambda>r. upsert (f r)) rows (upsert (f r) T)) =
        (case last_with (\<lambda>r. ckey (f r) = k) rows of
           Some r' \<Rightarrow> [f r']
         | None \<Rightarrow> filter (\<lambda>x. ckey x = k) (upsert (f r) T))"
    using Cons.prems by (intro Cons.IH distinct_upsert)
  then show ?case
    using Cons.prems by (auto simp: filter_key_upsert split: option.splits)
qed

lemma same_keys_same_rows:
  assumes "distinct (map ckey A)" and "distinct (map ckey B)"
    and "\<And>k. filter (\<lambda>x. ckey x = k) A = filter (\<lambda>x. ckey x = k) B"
  shows "mset A = mset B"
proof -
  have "x \<in> set A \<longleftrightarrow> x \<in> set B" for x
  proof -
    have "x \<in> set A \<longleftrightarrow> x \<in> set (filter (\<lambda>y. ckey y = ckey x) A)" by simp
    also have "\<dots> \<longleftrightarrow> x \<in> set (filter (\<lambda>y. ckey y = ckey x) B)" by (simp only: assms(3))
    also have "\<dots> \<longleftrightarrow> x \<in> set B" by simp
    finally show ?thesis .
  qed
  then have "set A = set B" by blast
  moreover have "distinct A" "distinct B"
    using assms(1,2) by (simp_all add: distinct_map)
  ultimately show ?thesis by (simp add: set_eq_iff_mset_eq_distinct)
qed

lemma v85_import_current_file:
  "v85 (import_current_file name rows con) =
     fold (\<lambda>r. upsert (current_values (yyyymmdd_to_iso (group CURRENT_RE name 1))
                          (group CURRENT_RE name 2) name r)) rows
       (filter (\<lambda>x. c_source_file x \<noteq> name \<and> c_source_file x \<noteq> current_legacy_name name)
          (v85 con))"
  by (simp add: import_current_file_def Let_def v85_fold_insert delete_v85_def)

lemma v85_history_import_current_file:
  "v85_history (import_current_file name rows con) = v85_history con"
  by (simp add: import_current_file_def Let_def v85_history_fold_insert delete_v85_def)

lemma unique_keys_import_current_file:
  "unique_keys con \<Longrightarrow> unique_keys (import_current_file name rows con)"
  unfolding unique_keys_def v85_import_current_file
  by (intro distinct_fold_upsert) (simp add: distinct_map_filter)

lemma fold_upsert_twice:
  assumes "distinct (map ckey T)"
  shows "filter (\<lambda>x. ckey x = k)
           (fold (\<lambda>r. upsert (f r)) rows
              (filter keep (fold (\<lambda>r. upsert (f r)) rows (filter keep T)))) =
         filter (\<lambda>x. ckey x = k) (fold (\<lambda>r. upsert (f r)) rows (filter keep T))"
proof -
  define imp where "imp = (\<lambda>T. fold (\<lambda>r. upsert (f r)) rows (filter keep T))"
  have once: "filter (\<lambda>x. ckey x = k) (imp X) =
        (case last_with (\<lambda>r. ckey (f r) = k) rows of
           Some r \<Rightarrow> [f r]
         | None \<Rightarrow> filter keep (filter (\<lambda>x. ckey x = k) X))"
    if "distinct (map ckey X)" for X
  proof -
    have "distinct (map ckey (filter keep X))"
      using that by (simp add: distinct_map_filter)
    moreover have "filter (\<lambda>x. ckey x = k) (filter keep X) = filter keep (filter (\<lambda>x. ckey x = k) X)"
      by (auto intro: filter_cong)
    ultimately show ?thesis
      unfolding imp_def by (simp only: filter_key_fold_upsert)
  qed
  have d1: "distinct (map ckey (imp T))"
    unfolding imp_def using assms(1) by (intro distinct_fold_upsert) (simp add: distinct_map_filter)
  have "filter (\<lambda>x. ckey x = k) (imp (imp T)) = filter (\<lambda>x. ckey x = k) (imp T)"
  proof (cases "last_with (\<lambda>r. ckey (f r) = k) rows")
    case None
    then show ?thesis
      by (simp add: once [OF d1] once [OF assms(1)])
  next
    case (Some r)
    then show ?thesis
      by (simp add: once [OF d1] once [OF assms(1)])
  qed
  then show ?thesis
    by (simp only: imp_def)
qed

lemma import_current_file_twice:
  assumes "unique_keys con"
  shows "mset (v85 (import_current_file name rows (import_current_file name rows con))) =
         mset (v85 (import_current_file name rows con))"
proof (rule same_keys_same_rows)
  let ?c1 = "import_current_file name rows con"
  show "distinct (map ckey (v85 (import_current_file name rows ?c1)))"
    using assms unique_keys_import_current_file unfolding unique_keys_def by blast
  show d1: "distinct (map ckey (v85 ?c1))"
    using assms unique_keys_import_current_file unfolding unique_keys_def by blast
  fix k
  show "filter (\<lambda>x. ckey x = k) (v85 (import_current_file name rows ?c1)) =
        filter (\<lambda>x. ckey x = k) (v85 ?c1)"
    using fold_upsert_twice [of "v85 con"] assms
    by (simp add: v85_import_current_file unique_keys_def)
qed

lemma v85_history_import_history_file:
  "v85_history (import_history_file name rows con) =
     filter (\<lambda>x. h_source_file x \<noteq> name \<and> h_source_file x \<noteq> history_legacy_name name)
       (v85_history con) @
     map (history_values (group HISTORY_RE name 2) name) rows"
proof -
  have "v85_history (fold (\<lambda>r. insert_v85_history (f r)) rows c) = v85_history c @ map f rows"
    for f and c :: con
    by (induction rows arbitrary: c) (simp_all add: insert_v85_history_def)
  then show ?thesis
    by (simp add: import_history_file_def Let_def delete_v85_history_def)
qed

lemma v85_import_history_file: "v85 (import_history_file name rows con) = v85 con"
proof -
  have "v85 (fold (\<lambda>r. insert_v85_history (f r)) rows c) = v85 c" for f and c :: con
    by (induction rows arbitrary: c) (simp_all add: insert_v85_history_def)
  then show ?thesis
    by (simp add: import_history_file_def Let_def delete_v85_history_def)
qed

lemma h_source_file_history_values [simp]: "h_source_file (history_values avd name r) = name"
  by (simp add: history_values_def)

lemma c_source_file_current_values [simp]: "c_source_file (current_values d avd name r) = name"
  by (simp add: current_values_def)

lemma import_history_file_twice:
  "import_history_file name rows (import_history_file name rows con) =
   import_history_file name rows con"
proof -
  have "v85_history (import_history_file name rows (import_history_file name rows con)) =
        v85_history (import_history_file name rows con)"
    by (simp add: v85_history_import_history_file filter_empty_conv)
  moreover have "v85 (import_history_file name rows (import_history_file name rows con)) =
        v85 (import_history_file name rows con)"
    by (simp add: v85_import_history_file)
  ultimately show ?thesis
    by simp
qed

lemma upsert_absent: "ckey r \<notin> ckey ` set T \<Longrightarrow> upsert r T = T @ [r]"
  by (induction T) (auto simp: upsert_conv)

lemma upsert_present: "ckey r \<in> ckey ` set T \<Longrightarrow> length (upsert r T) = length T"
  by (induction T) (auto simp: upsert_conv)

lemma upsert_other_keys:
  "filter (\<lambda>x. ckey x \<noteq> ckey r) (upsert r T) = filter (\<lambda>x. ckey x \<noteq> ckey r) T"
  by (induction T) (auto simp: upsert_conv)

lemma last_with_SomeD: "last_with P xs = Some y \<Longrightarrow> P y \<and> y \<in> set xs"
  by (induction xs) (auto split: option.splits if_splits)

lemma last_with_None_iff: "last_with P xs = None \<longleftrightarrow> (\<forall>x\<in>set xs. \<not> P x)"
  by (induction xs) (auto split: option.splits)

lemma last_with_Some: "x \<in> set xs \<Longrightarrow> P x \<Longrightarrow> \<exists>y. last_with P xs = Some y"
  using last_with_None_iff [of P xs] by (cases "last_with P xs") auto

text \<open>
  C2 (upsert correctness for Current). Let the store satisfy the uniqueness constraint.
  After a file is imported, for every row \<open>r\<close> of the file exactly one row of the table
  has the key of \<open>r\<close>: the values of the last row of the file with that key, attributed
  to the file, whatever file the key was attributed to before. One insert statement
  leaves exactly one row with the key of the new row, equal to the new row, leaves the
  rows of other keys as they were, keeps the number of rows when the key was present
  and appends the row when it was absent.
\<close>

theorem load_current_upsert:
  assumes "unique_keys con" and "r \<in> set rows"
  shows "let vals = current_values (yyyymmdd_to_iso (group CURRENT_RE name 1))
                      (group CURRENT_RE name 2) name;
             con' = import_current_file name rows con
         in (\<exists>r'. last_with (\<lambda>q. ckey (vals q) = ckey (vals r)) rows = Some r' \<and>
                  filter (\<lambda>x. ckey x = ckey (vals r)) (v85 con') = [vals r'] \<and>
                  c_source_file (vals r') = name) \<and>
            filter (\<lambda>x. ckey x = ckey new) (v85 (insert_v85 new con)) = [new] \<and>
            filter (\<lambda>x. ckey x \<noteq> ckey new) (v85 (insert_v85 new con)) =
              filter (\<lambda>x. ckey x \<noteq> ckey new) (v85 con) \<and>
            (ckey new \<in> ckey ` set (v85 con) \<longrightarrow>
               length (v85 (insert_v85 new con)) = length (v85 con)) \<and>
            (ckey new \<notin> ckey ` set (v85 con) \<longrightarrow> v85 (insert_v85 new con) = v85 con @ [new])"
proof -
  define vals where "vals = current_values (yyyymmdd_to_iso (group CURRENT_RE name 1))
                      (group CURRENT_RE name 2) name"
  let ?keep = "\<lambda>x. c_source_file x \<noteq> name \<and> c_source_file x \<noteq> current_legacy_name name"
  obtain r' where r': "last_with (\<lambda>q. ckey (vals q) = ckey (vals r)) rows = Some r'"
    using last_with_Some [of r rows "\<lambda>q. ckey (vals q) = ckey (vals r)"] assms(2) by auto
  have "distinct (map ckey (filter ?keep (v85 con)))"
    using assms(1) by (simp add: unique_keys_def distinct_map_filter)
  then have "filter (\<lambda>x. ckey x = ckey (vals r)) (v85 (import_current_file name rows con)) =
             [vals r']"
    unfolding v85_import_current_file vals_def [symmetric]
    by (simp add: filter_key_fold_upsert r')
  moreover have "c_source_file (vals r') = name"
    by (simp add: vals_def)
  moreover have "filter (\<lambda>x. ckey x = ckey new) (v85 (insert_v85 new con)) = [new]"
    using assms(1) by (simp add: insert_v85_def unique_keys_def filter_key_upsert)
  ultimately show ?thesis
    unfolding Let_def vals_def [symmetric] using r'
    by (simp add: insert_v85_def upsert_other_keys upsert_absent upsert_present)
qed

lemma last_with_append:
  "last_with P (xs @ ys) =
     (case last_with P ys of Some y \<Rightarrow> Some y | None \<Rightarrow> last_with P xs)"
  by (induction xs) (auto split: option.splits)

lemma filter_key_run:
  assumes "distinct (map ckey T)" and "distinct fs"
    and "\<And>p q r. p \<in> set fs \<Longrightarrow> q \<in> set fs \<Longrightarrow> p \<noteq> q \<Longrightarrow> r \<in> set (rs p) \<Longrightarrow> keep q r"
  shows "filter (\<lambda>x. ckey x = k) (fold (\<lambda>p T. fold upsert (rs p) (filter (keep p) T)) fs T) =
     (case last_with (\<lambda>r. ckey r = k) (concat (map rs fs)) of
        Some r \<Rightarrow> [r]
      | None \<Rightarrow> filter (\<lambda>x. ckey x = k) (filter (\<lambda>x. \<forall>p\<in>set fs. keep p x) T))"
  using assms
proof (induction fs arbitrary: T)
  case Nil
  then show ?case by simp
next
  case (Cons p fs)
  let ?T' = "fold upsert (rs p) (filter (keep p) T)"
  let ?all = "\<lambda>x. \<forall>q\<in>set fs. keep q x"
  have dT': "distinct (map ckey ?T')"
    using distinct_fold_upsert [of "filter (keep p) T" "\<lambda>r. r" "rs p"] Cons.prems(1)
    by (simp add: distinct_map_filter)
  have IH: "filter (\<lambda>x. ckey x = k) (fold (\<lambda>p T. fold upsert (rs p) (filter (keep p) T)) fs ?T') =
     (case last_with (\<lambda>r. ckey r = k) (concat (map rs fs)) of
        Some r \<Rightarrow> [r]
      | None \<Rightarrow> filter (\<lambda>x. ckey x = k) (filter ?all ?T'))"
    using Cons.prems by (intro Cons.IH dT') auto
  have head: "filter (\<lambda>x. ckey x = k) ?T' =
     (case last_with (\<lambda>r. ckey r = k) (rs p) of
        Some r \<Rightarrow> [r]
      | None \<Rightarrow> filter (\<lambda>x. ckey x = k) (filter (keep p) T))"
    using filter_key_fold_upsert [of "filter (keep p) T" k "\<lambda>r. r" "rs p"] Cons.prems(1)
    by (simp add: distinct_map_filter)
  have kept: "?all r" if "r \<in> set (rs p)" for r
    using Cons.prems(2) Cons.prems(3) [of p _ r] that by auto
  have "filter (\<lambda>x. ckey x = k) (filter ?all ?T') = filter ?all (filter (\<lambda>x. ckey x = k) ?T')"
    by (auto intro: filter_cong)
  also have "\<dots> = (case last_with (\<lambda>r. ckey r = k) (rs p) of
        Some r \<Rightarrow> [r]
      | None \<Rightarrow> filter (\<lambda>x. ckey x = k) (filter (\<lambda>x. \<forall>q\<in>set (p # fs). keep q x) T))"
    unfolding head using kept
    by (auto split: option.splits dest: last_with_SomeD intro: filter_cong)
  finally show ?case
    using IH by (simp add: last_with_append split: option.splits)
qed

lemma distinct_run:
  "distinct (map ckey T) \<Longrightarrow>
   distinct (map ckey (fold (\<lambda>p T. fold upsert (rs p) (filter (keep p) T)) fs T))"
proof (induction fs arbitrary: T)
  case Nil
  then show ?case by simp
next
  case (Cons p fs)
  have "distinct (map ckey (fold upsert (rs p) (filter (keep p) T)))"
    using distinct_fold_upsert [of "filter (keep p) T" "\<lambda>r. r" "rs p"] Cons.prems
    by (simp add: distinct_map_filter)
  then show ?case
    using Cons.IH by simp
qed

lemma run_twice:
  assumes "distinct (map ckey T)" and "distinct fs"
    and "\<And>p q r. p \<in> set fs \<Longrightarrow> q \<in> set fs \<Longrightarrow> p \<noteq> q \<Longrightarrow> r \<in> set (rs p) \<Longrightarrow> keep q r"
  defines "run \<equiv> fold (\<lambda>p T. fold upsert (rs p) (filter (keep p) T)) fs"
  shows "mset (run (run T)) = mset (run T)"
proof (rule same_keys_same_rows)
  show d1: "distinct (map ckey (run T))"
    unfolding run_def using assms(1) by (rule distinct_run)
  show "distinct (map ckey (run (run T)))"
    unfolding run_def using d1 [unfolded run_def] by (rule distinct_run)
  fix k
  let ?all = "\<lambda>x. \<forall>p\<in>set fs. keep p x"
  have once: "filter (\<lambda>x. ckey x = k) (run X) =
     (case last_with (\<lambda>r. ckey r = k) (concat (map rs fs)) of
        Some r \<Rightarrow> [r]
      | None \<Rightarrow> filter ?all (filter (\<lambda>x. ckey x = k) X))" if "distinct (map ckey X)" for X
  proof -
    have swap: "filter (\<lambda>x. ckey x = k) (filter ?all X) = filter ?all (filter (\<lambda>x. ckey x = k) X)"
      by (auto intro: filter_cong)
    have "filter (\<lambda>x. ckey x = k) (run X) =
     (case last_with (\<lambda>r. ckey r = k) (concat (map rs fs)) of
        Some r \<Rightarrow> [r]
      | None \<Rightarrow> filter (\<lambda>x. ckey x = k) (filter ?all X))"
      unfolding run_def by (rule filter_key_run [OF that assms(2)]) (rule assms(3))
    then show ?thesis
      by (simp only: swap)
  qed
  show "filter (\<lambda>x. ckey x = k) (run (run T)) = filter (\<lambda>x. ckey x = k) (run T)"
    by (cases "last_with (\<lambda>r. ckey r = k) (concat (map rs fs))")
      (simp_all add: once [OF d1] once [OF assms(1)])
qed

lemma mset_history_run:
  assumes "distinct fs"
    and "\<And>p q r. p \<in> set fs \<Longrightarrow> q \<in> set fs \<Longrightarrow> p \<noteq> q \<Longrightarrow> r \<in> set (new p) \<Longrightarrow> keep q r"
  shows "mset (fold (\<lambda>p T. filter (keep p) T @ new p) fs T) =
         mset (filter (\<lambda>x. \<forall>p\<in>set fs. keep p x) T) + mset (concat (map new fs))"
  using assms
proof (induction fs arbitrary: T)
  case Nil
  then show ?case by simp
next
  case (Cons p fs)
  have kept: "\<forall>q\<in>set fs. keep q r" if "r \<in> set (new p)" for r
    using Cons.prems(1) Cons.prems(2) [of p _ r] that by auto
  have "mset (fold (\<lambda>p T. filter (keep p) T @ new p) fs (filter (keep p) T @ new p)) =
        mset (filter (\<lambda>x. \<forall>q\<in>set fs. keep q x) (filter (keep p) T @ new p)) +
        mset (concat (map new fs))"
    using Cons.prems by (intro Cons.IH) auto
  moreover have "filter (\<lambda>x. \<forall>q\<in>set fs. keep q x) (new p) = new p"
    using kept by (simp add: filter_id_conv)
  moreover have "filter (\<lambda>x. \<forall>q\<in>set fs. keep q x) (filter (keep p) T) =
        filter (\<lambda>x. \<forall>q\<in>set (p # fs). keep q x) T"
    by (auto intro: filter_cong)
  ultimately show ?case
    by simp
qed

lemma history_run_twice:
  assumes "distinct fs"
    and "\<And>p q r. p \<in> set fs \<Longrightarrow> q \<in> set fs \<Longrightarrow> p \<noteq> q \<Longrightarrow> r \<in> set (new p) \<Longrightarrow> keep q r"
    and "\<And>p r. p \<in> set fs \<Longrightarrow> r \<in> set (new p) \<Longrightarrow> \<not> keep p r"
  defines "run \<equiv> fold (\<lambda>p T. filter (keep p) T @ new p) fs"
  shows "mset (run (run T)) = mset (run T)"
proof -
  let ?all = "\<lambda>x. \<forall>p\<in>set fs. keep p x"
  have once: "mset (run X) = mset (filter ?all X) + mset (concat (map new fs))" for X
    unfolding run_def using assms(1,2) by (rule mset_history_run)
  have e: "filter ?all (concat (map new fs)) = []"
    using assms(3) by (auto simp: filter_empty_conv)
  have ff: "filter ?all (filter ?all T) = filter ?all T"
    by simp
  have "mset (run T) = mset (filter ?all T @ concat (map new fs))"
    by (simp add: once)
  then have "mset (filter ?all (run T)) = mset (filter ?all (filter ?all T @ concat (map new fs)))"
    by (metis mset_filter)
  also have "\<dots> = mset (filter ?all T)"
    by (simp only: filter_append e ff append_Nil2)
  finally show ?thesis
    using once [of "run T"] once [of T] by simp
qed

section \<open>Runs\<close>

lemma load_current_loop_read:
  "\<forall>p\<in>set files. contents p \<noteq> None \<Longrightarrow>
   load_current_loop con files n = Inr (import_current_files files con, n + total_rows files)"
  by (induction files arbitrary: con n)
    (auto simp: import_current_files_def total_rows_def rows_of_def Let_def)

lemma load_current_loop_unread:
  "\<exists>p\<in>set files. contents p = None \<Longrightarrow> \<exists>e. load_current_loop con files n = Inl e"
  by (induction files arbitrary: con n) (auto simp: Let_def split: option.splits)

lemma load_history_loop_read:
  "\<forall>p\<in>set files. contents p \<noteq> None \<Longrightarrow>
   load_history_loop con files n = Inr (import_history_files files con, n + total_rows files)"
  by (induction files arbitrary: con n)
    (auto simp: import_history_files_def total_rows_def rows_of_def Let_def)

lemma load_history_loop_unread:
  "\<exists>p\<in>set files. contents p = None \<Longrightarrow> \<exists>e. load_history_loop con files n = Inl e"
  by (induction files arbitrary: con n) (auto simp: Let_def split: option.splits)

lemma load_current_read:
  "\<forall>p\<in>set (current_files csv_dir). contents p \<noteq> None \<Longrightarrow>
   load_current con csv_dir =
     Inr (import_current_files (current_files csv_dir) con,
          length (current_files csv_dir), total_rows (current_files csv_dir))"
  using load_current_loop_read [of "current_files csv_dir" con 0]
  by (simp add: load_current_def current_files_def [symmetric] Let_def)

lemma load_current_unread:
  "\<exists>p\<in>set (current_files csv_dir). contents p = None \<Longrightarrow>
   \<exists>e. load_current con csv_dir = Inl e"
  using load_current_loop_unread [of "current_files csv_dir" con 0]
  by (auto simp: load_current_def current_files_def [symmetric] Let_def)

lemma load_history_read:
  "\<forall>p\<in>set (history_files csv_dir). contents p \<noteq> None \<Longrightarrow>
   load_history con csv_dir =
     Inr (import_history_files (history_files csv_dir) con,
          length (history_files csv_dir), total_rows (history_files csv_dir))"
  using load_history_loop_read [of "history_files csv_dir" con 0]
  by (simp add: load_history_def history_files_def [symmetric] Let_def)

lemma load_history_unread:
  "\<exists>p\<in>set (history_files csv_dir). contents p = None \<Longrightarrow>
   \<exists>e. load_history con csv_dir = Inl e"
  using load_history_loop_unread [of "history_files csv_dir" con 0]
  by (auto simp: load_history_def history_files_def [symmetric] Let_def)

lemma main_ok:
  assumes "run_ok csv_dir skip_history"
  shows "main db csv_dir skip_history =
     (if skip_history then
        (import_current_files (current_files csv_dir) db,
         Inr (length (current_files csv_dir), total_rows (current_files csv_dir), 0, 0))
      else
        (import_history_files (history_files csv_dir)
           (import_current_files (current_files csv_dir) db),
         Inr (length (current_files csv_dir), total_rows (current_files csv_dir),
              length (history_files csv_dir), total_rows (history_files csv_dir))))"
  using assms by (auto simp: main_def run_ok_def load_current_read load_history_read)

lemma main_failed:
  assumes "\<not> run_ok csv_dir skip_history"
  shows "\<exists>e. main db csv_dir skip_history = (db, Inl e)"
proof (cases "\<forall>p\<in>set (current_files csv_dir). contents p \<noteq> None")
  case True
  then have "\<not> skip_history" and "\<exists>p\<in>set (history_files csv_dir). contents p = None"
    using assms by (auto simp: run_ok_def)
  then obtain e where
    "load_history (import_current_files (current_files csv_dir) db) csv_dir = Inl e"
    using load_history_unread by blast
  then show ?thesis
    using True \<open>\<not> skip_history\<close> by (simp add: main_def load_current_read)
next
  case False
  then have "\<exists>p\<in>set (current_files csv_dir). contents p = None"
    by simp
  then obtain e where "load_current db csv_dir = Inl e"
    using load_current_unread by blast
  then show ?thesis
    by (simp add: main_def)
qed

lemma main_Inr_iff:
  "(\<exists>db' counts. main db csv_dir skip_history = (db', Inr counts)) \<longleftrightarrow> run_ok csv_dir skip_history"
  using main_failed [of csv_dir skip_history db] main_ok [of csv_dir skip_history db]
  by (cases "run_ok csv_dir skip_history") auto

lemma v85_import_current_files:
  "v85 (import_current_files fs con) =
     fold (\<lambda>p T. fold upsert (current_rows_of p) (filter (current_kept p) T)) fs (v85 con)"
proof -
  have one: "v85 (import_current_file (path_name p) (rows_of p) c) =
        fold upsert (current_rows_of p) (filter (current_kept p) (v85 c))" for p c
    by (simp add: v85_import_current_file current_rows_of_def fold_map comp_def
        current_kept_def [abs_def])
  show ?thesis
    unfolding import_current_files_def
    by (induction fs arbitrary: con) (simp_all add: one)
qed

lemma v85_history_import_current_files:
  "v85_history (import_current_files fs con) = v85_history con"
  unfolding import_current_files_def
  by (induction fs arbitrary: con) (simp_all add: v85_history_import_current_file)

lemma v85_history_import_history_files:
  "v85_history (import_history_files fs con) =
     fold (\<lambda>p T. filter (history_kept p) T @ history_rows_of p) fs (v85_history con)"
proof -
  have one: "v85_history (import_history_file (path_name p) (rows_of p) c) =
        filter (history_kept p) (v85_history c) @ history_rows_of p" for p c
    by (simp add: v85_history_import_history_file history_rows_of_def history_kept_def [abs_def])
  show ?thesis
    unfolding import_history_files_def
    by (induction fs arbitrary: con) (simp_all add: one)
qed

lemma v85_import_history_files: "v85 (import_history_files fs con) = v85 con"
  unfolding import_history_files_def
  by (induction fs arbitrary: con) (simp_all add: v85_import_history_file)

lemma set_current_files:
  "set (current_files csv_dir) =
     {p \<in> set csv_dir. is_file p \<and> matches CURRENT_RE (path_name p)}"
  by (auto simp: current_files_def)

lemma set_history_files:
  "set (history_files csv_dir) =
     {p \<in> set csv_dir. is_file p \<and> matches HISTORY_RE (path_name p)}"
  by (auto simp: history_files_def)

lemma distinct_names_current_files:
  "distinct (map path_name csv_dir) \<Longrightarrow> distinct (map path_name (current_files csv_dir))"
  by (simp add: current_files_def distinct_map_filter distinct_map inj_on_def)

lemma distinct_names_history_files:
  "distinct (map path_name csv_dir) \<Longrightarrow> distinct (map path_name (history_files csv_dir))"
  by (simp add: history_files_def distinct_map_filter distinct_map inj_on_def)

lemma current_rows_kept_by_others:
  assumes "distinct (map path_name csv_dir)"
    and "p \<in> set (current_files csv_dir)" and "q \<in> set (current_files csv_dir)" and "p \<noteq> q"
    and "r \<in> set (current_rows_of p)"
  shows "current_kept q r"
proof -
  have "path_name p \<noteq> path_name q"
    using distinct_names_current_files [OF assms(1)] assms(2-4)
    by (auto simp: distinct_map inj_on_def)
  moreover have "current_legacy_name (path_name q) \<noteq> path_name p"
    using assms(2,3) by (intro current_legacy_not_recognized) (simp_all add: set_current_files)
  moreover have "c_source_file r = path_name p"
    using assms(5) by (auto simp: current_rows_of_def)
  ultimately show ?thesis
    by (simp add: current_kept_def)
qed

lemma history_rows_kept_by_others:
  assumes "distinct (map path_name csv_dir)"
    and "p \<in> set (history_files csv_dir)" and "q \<in> set (history_files csv_dir)" and "p \<noteq> q"
    and "r \<in> set (history_rows_of p)"
  shows "history_kept q r"
proof -
  have "path_name p \<noteq> path_name q"
    using distinct_names_history_files [OF assms(1)] assms(2-4)
    by (auto simp: distinct_map inj_on_def)
  moreover have "history_legacy_name (path_name q) \<noteq> path_name p"
    using assms(2,3) by (intro history_legacy_not_recognized) (simp_all add: set_history_files)
  moreover have "h_source_file r = path_name p"
    using assms(5) by (auto simp: history_rows_of_def)
  ultimately show ?thesis
    by (simp add: history_kept_def)
qed

lemma import_current_files_twice:
  assumes "unique_keys con" and "distinct (map path_name csv_dir)"
  shows "mset (v85 (import_current_files (current_files csv_dir)
                     (import_current_files (current_files csv_dir) con))) =
         mset (v85 (import_current_files (current_files csv_dir) con))"
proof -
  have "distinct (current_files csv_dir)"
    using distinct_names_current_files [OF assms(2)] by (simp add: distinct_map)
  then show ?thesis
    unfolding v85_import_current_files
    using assms(1) current_rows_kept_by_others [OF assms(2)]
    by (intro run_twice) (simp_all add: unique_keys_def)
qed

lemma import_history_files_twice:
  assumes "distinct (map path_name csv_dir)"
  shows "mset (v85_history (import_history_files (history_files csv_dir)
                     (import_history_files (history_files csv_dir) con))) =
         mset (v85_history (import_history_files (history_files csv_dir) con))"
proof -
  have "distinct (history_files csv_dir)"
    using distinct_names_history_files [OF assms(1)] by (simp add: distinct_map)
  moreover have "\<not> history_kept p r" if "r \<in> set (history_rows_of p)" for p r
    using that by (auto simp: history_kept_def history_rows_of_def)
  ultimately show ?thesis
    unfolding v85_history_import_history_files
    using history_rows_kept_by_others [OF assms(1)]
    by (intro history_run_twice) simp_all
qed

lemma main_twice:
  assumes "unique_keys db" and "distinct (map path_name csv_dir)"
    and "main db csv_dir skip_history = (db1, Inr counts)"
  shows "\<exists>db2. main db1 csv_dir skip_history = (db2, Inr counts) \<and>
           mset (v85 db2) = mset (v85 db1) \<and>
           mset (v85_history db2) = mset (v85_history db1)"
proof -
  have ok: "run_ok csv_dir skip_history"
    using assms(3) main_Inr_iff by blast
  let ?cur = "import_current_files (current_files csv_dir)"
  let ?hist = "import_history_files (history_files csv_dir)"
  show ?thesis
  proof (cases skip_history)
    case True
    have 1: "db1 = ?cur db" and 2: "main db1 csv_dir skip_history = (?cur db1, Inr counts)"
      using assms(3) main_ok [OF ok, of db] main_ok [OF ok, of db1] True by simp_all
    have "mset (v85 (?cur db1)) = mset (v85 db1)"
      unfolding 1 using import_current_files_twice [OF assms(1,2)] .
    moreover have "mset (v85_history (?cur db1)) = mset (v85_history db1)"
      by (simp add: v85_history_import_current_files)
    ultimately show ?thesis
      using 2 by blast
  next
    case False
    have 1: "db1 = ?hist (?cur db)"
      and 2: "main db1 csv_dir skip_history = (?hist (?cur db1), Inr counts)"
      using assms(3) main_ok [OF ok, of db] main_ok [OF ok, of db1] False by simp_all
    have "mset (v85 (?cur (?hist (?cur db)))) = mset (v85 (?cur db))"
      using import_current_files_twice [OF assms(1,2)]
      by (simp add: v85_import_current_files v85_import_history_files)
    then have "mset (v85 (?hist (?cur db1))) = mset (v85 db1)"
      unfolding 1 by (simp add: v85_import_history_files)
    moreover have "mset (v85_history (?hist (?cur (?hist (?cur db))))) =
          mset (v85_history (?hist (?cur db)))"
      using import_history_files_twice [OF assms(2), of "?cur db"]
      by (simp add: v85_history_import_history_files v85_history_import_current_files)
    then have "mset (v85_history (?hist (?cur db1))) = mset (v85_history db1)"
      unfolding 1 .
    ultimately show ?thesis
      using 2 by blast
  qed
qed

text \<open>
  C1 (idempotence of import). Let the store satisfy the uniqueness constraint. Importing
  a Current file a second time leaves table \<open>v85\<close> with the same rows, each as often as
  before (and does not touch \<open>v85_history\<close>); importing a History file a second time
  leaves the whole store as it was after the first import. The same holds for a whole
  run: when \<open>main\<close> has ended without error on a directory, running it again on the
  unchanged directory ends without error with the same counters and leaves both tables
  with the same rows, each as often as before.
\<close>

theorem import_idempotent:
  assumes "unique_keys db"
  shows "mset (v85 (import_current_file name rows (import_current_file name rows db))) =
           mset (v85 (import_current_file name rows db)) \<and>
         v85_history (import_current_file name rows (import_current_file name rows db)) =
           v85_history (import_current_file name rows db) \<and>
         import_history_file name rows (import_history_file name rows db) =
           import_history_file name rows db \<and>
         (distinct (map path_name csv_dir) \<and>
          main db csv_dir skip_history = (db1, Inr counts) \<longrightarrow>
            (\<exists>db2. main db1 csv_dir skip_history = (db2, Inr counts) \<and>
               mset (v85 db2) = mset (v85 db1) \<and>
               mset (v85_history db2) = mset (v85_history db1)))"
  using assms main_twice [of db csv_dir skip_history db1 counts]
  by (simp add: import_current_file_twice v85_history_import_current_file
      import_history_file_twice)

text \<open>
  C6 (atomicity on parse failure), amended. If a regular file of the directory has a
  recognised name (a Current name, or a History name when history is not skipped) and
  reading it raises, \<open>main\<close> ends with an error and the committed store is the store it
  started with, whatever the files imported before the failure wrote. A file without a
  header is not such a failure: it yields no rows.
\<close>

theorem parse_failure_commits_nothing:
  assumes "p \<in> set csv_dir" and "is_file p" and "contents p = None"
    and "matches CURRENT_RE (path_name p) \<or> (\<not> skip_history \<and> matches HISTORY_RE (path_name p))"
  shows "(\<exists>e. main db csv_dir skip_history = (db, Inl e)) \<and> dict_reader [] = []"
proof -
  have "\<not> run_ok csv_dir skip_history"
    using assms by (auto simp: run_ok_def set_current_files set_history_files)
  then have "\<exists>e. main db csv_dir skip_history = (db, Inl e)"
    by (rule main_failed)
  then show ?thesis
    by (simp add: dict_reader_def)
qed

lemma main_cong_files:
  assumes "current_files d = current_files d'" and "history_files d = history_files d'"
  shows "main db d skip_history = main db d' skip_history"
proof -
  have "load_current c d = load_current c d'" for c
    using assms(1) by (simp add: load_current_def current_files_def)
  moreover have "load_history c d = load_history c d'" for c
    using assms(2) by (simp add: load_history_def history_files_def)
  ultimately show ?thesis
    by (simp add: main_def split: sum.splits)
qed

text \<open>
  C8 (unrecognised files ignored). An entry whose name matches neither pattern changes
  nothing: with it or without it, anywhere in the directory, whatever its contents (also
  when it cannot be read), \<open>main\<close> gives the same store, the same counters and the same
  outcome. A directory with one readable Current file and one such entry gives the
  counters 1 file and the rows of that file, and no error.
\<close>

theorem unrecognized_file_ignored:
  assumes "\<not> matches CURRENT_RE (path_name e)" and "\<not> matches HISTORY_RE (path_name e)"
  shows "main db (d1 @ e # d2) skip_history = main db (d1 @ d2) skip_history \<and>
         (is_file p \<and> matches CURRENT_RE (path_name p) \<and> contents p \<noteq> None \<longrightarrow>
            snd (main db [p, e] skip_history) = Inr (1, length (rows_of p), 0, 0))"
proof -
  have 1: "main db (d1 @ e # d2) skip_history = main db (d1 @ d2) skip_history"
    using assms by (intro main_cong_files) (simp_all add: current_files_def history_files_def)
  have 2: "snd (main db [p, e] skip_history) = Inr (1, length (rows_of p), 0, 0)"
    if "is_file p" "matches CURRENT_RE (path_name p)" "contents p \<noteq> None"
  proof -
    have c: "current_files [p, e] = [p]" and h: "history_files [p, e] = []"
      using assms that not_both_kinds [of "path_name p"]
      by (simp_all add: current_files_def history_files_def)
    have "run_ok [p, e] skip_history"
      using that by (simp add: run_ok_def c h)
    then show ?thesis
      using that by (simp add: main_ok c h total_rows_def)
  qed
  show ?thesis
    using 1 2 by blast
qed

lemma set_upsert_subset: "set (upsert r T) \<subseteq> insert r (set T)"
  by (induction T) (auto simp: upsert_conv)

lemma set_fold_upsert_subset: "set (fold upsert rs T) \<subseteq> set rs \<union> set T"
proof (induction rs arbitrary: T)
  case Nil
  then show ?case by simp
next
  case (Cons r rs)
  then show ?case
    using set_upsert_subset [of r T] by fastforce
qed






lemma current_legacy_name_recognized:
  "matches CURRENT_RE name \<Longrightarrow>
   current_legacy_name name = ''v86_'' @ drop 4 name \<and> current_legacy_name name \<noteq> name"
  using matches_CURRENT_RE_prefix [of name] current_legacy_name_v85 by auto

lemma history_legacy_name_recognized:
  "matches HISTORY_RE name \<Longrightarrow>
   history_legacy_name name = ''v86_history_'' @ drop 12 name \<and>
   history_legacy_name name \<noteq> name"
  using matches_HISTORY_RE_prefix [of name] history_legacy_name_v85 by auto

lemma upsert_keeps_other_keys: "x \<in> set T \<Longrightarrow> ckey x \<noteq> ckey r \<Longrightarrow> x \<in> set (upsert r T)"
  by (induction T) (auto simp: upsert_conv)

lemma fold_upsert_keeps_other_keys:
  "x \<in> set T \<Longrightarrow> ckey x \<notin> ckey ` f ` set rows \<Longrightarrow> x \<in> set (fold (\<lambda>r. upsert (f r)) rows T)"
  by (induction rows arbitrary: T) (auto simp: upsert_keeps_other_keys)

lemma set_fold_upsert_map_subset:
  "set (fold (\<lambda>r. upsert (f r)) rows T) \<subseteq> f ` set rows \<union> set T"
  using set_fold_upsert_subset [of "map f rows" T] by (simp add: fold_map comp_def)

lemma superseded_current:
  assumes "matches CURRENT_RE name" and "unique_keys con"
  shows "let vals = current_values (yyyymmdd_to_iso (group CURRENT_RE name 1))
                      (group CURRENT_RE name 2) name;
             legacy_name = current_legacy_name name;
             con' = import_current_file name rows con
         in legacy_name = ''v86_'' @ drop 4 name \<and>
            (\<forall>x\<in>set (v85 con').
               c_source_file x = name \<or> c_source_file x = legacy_name \<longrightarrow> x \<in> vals ` set rows) \<and>
            (\<forall>x\<in>set (v85 con'). c_source_file x \<noteq> legacy_name) \<and>
            (\<forall>x\<in>set (v85 con).
               c_source_file x \<noteq> name \<and> c_source_file x \<noteq> legacy_name \<and>
               ckey x \<notin> ckey ` vals ` set rows \<longrightarrow> x \<in> set (v85 con')) \<and>
            (\<forall>x\<in>set (v85 con). \<forall>r\<in>set rows.
               c_source_file x = legacy_name \<and> ckey (vals r) = ckey x \<longrightarrow>
               (\<exists>r'\<in>set rows. filter (\<lambda>y. ckey y = ckey x) (v85 con') = [vals r'] \<and>
                  c_source_file (vals r') = name))"
proof -
  define vals where "vals = current_values (yyyymmdd_to_iso (group CURRENT_RE name 1))
                      (group CURRENT_RE name 2) name"
  define legacy_name where "legacy_name = current_legacy_name name"
  define con' where "con' = import_current_file name rows con"
  let ?keep = "\<lambda>x. c_source_file x \<noteq> name \<and> c_source_file x \<noteq> legacy_name"
  have v: "v85 con' = fold (\<lambda>r. upsert (vals r)) rows (filter ?keep (v85 con))"
    by (simp add: con'_def vals_def legacy_name_def v85_import_current_file)
  have src: "c_source_file (vals r) = name" for r
    by (simp add: vals_def)
  have leg: "legacy_name = ''v86_'' @ drop 4 name" "legacy_name \<noteq> name"
    using current_legacy_name_recognized [OF assms(1)] unfolding legacy_name_def by blast+
  have 1: "x \<in> vals ` set rows"
    if "x \<in> set (v85 con')" "c_source_file x = name \<or> c_source_file x = legacy_name" for x
    using that set_fold_upsert_map_subset [of vals rows "filter ?keep (v85 con)"]
    unfolding v by auto
  have 2: "c_source_file x \<noteq> legacy_name" if "x \<in> set (v85 con')" for x
  proof
    assume "c_source_file x = legacy_name"
    then have "x \<in> vals ` set rows"
      using 1 that by blast
    then show False
      using src leg(2) \<open>c_source_file x = legacy_name\<close> by auto
  qed
  have 3: "x \<in> set (v85 con')"
    if "x \<in> set (v85 con)" "?keep x" "ckey x \<notin> ckey ` vals ` set rows" for x
    unfolding v using that by (intro fold_upsert_keeps_other_keys) simp_all
  have 4: "\<exists>r'\<in>set rows. filter (\<lambda>y. ckey y = ckey x) (v85 con') = [vals r'] \<and>
                  c_source_file (vals r') = name"
    if hyp: "r \<in> set rows" "ckey (vals r) = ckey x" for x r
  proof -
    obtain r' where r': "last_with (\<lambda>q. ckey (vals q) = ckey x) rows = Some r'"
      using last_with_Some [of r rows "\<lambda>q. ckey (vals q) = ckey x"] hyp by auto
    have "distinct (map ckey (filter ?keep (v85 con)))"
      using assms(2) by (simp add: unique_keys_def distinct_map_filter)
    then have "filter (\<lambda>y. ckey y = ckey x) (v85 con') = [vals r']"
      unfolding v by (simp add: filter_key_fold_upsert r')
    then show ?thesis
      using last_with_SomeD [OF r'] src by auto
  qed
  show ?thesis
    unfolding Let_def vals_def [symmetric] legacy_name_def [symmetric] con'_def [symmetric]
    using leg(1) 1 2 3 4 by blast
qed

lemma superseded_history:
  assumes "matches HISTORY_RE name"
  shows "let vals = history_values (group HISTORY_RE name 2) name;
             legacy_name = history_legacy_name name;
             con' = import_history_file name rows con
         in legacy_name = ''v86_history_'' @ drop 12 name \<and>
            v85_history con' =
              filter (\<lambda>x. h_source_file x \<noteq> name \<and> h_source_file x \<noteq> legacy_name)
                (v85_history con) @ map vals rows \<and>
            (\<forall>x\<in>set (v85_history con'). h_source_file x \<noteq> legacy_name)"
proof -
  have leg: "history_legacy_name name = ''v86_history_'' @ drop 12 name"
    "history_legacy_name name \<noteq> name"
    using history_legacy_name_recognized [OF assms] by blast+
  show ?thesis
    unfolding Let_def v85_history_import_history_file using leg by auto
qed

text \<open>
  C3 (legacy supersession). For a recognised Current name and a store that satisfies the
  uniqueness constraint: the legacy alias is the name with its leading \<open>v85_\<close> replaced
  by \<open>v86_\<close> and the rest unchanged; after the import every row attributed to the name
  or to the alias is a row of the file, and none is attributed to the alias; a stored
  row of another attribution whose key the file does not write is still there; and where
  a stored row attributed to the alias has the key of a row of the file, that key now
  holds exactly one row, written from the file and attributed to the name. For a
  recognised History name the alias is the name with its leading \<open>v85_history_\<close> replaced
  by \<open>v86_history_\<close>; the import keeps the rows attributed to neither the name nor the
  alias, in their order, and appends the rows of the file; none is attributed to the
  alias afterwards.
\<close>

theorem legacy_rows_superseded:
  assumes "matches CURRENT_RE name" and "unique_keys con" and "matches HISTORY_RE hname"
  shows "(let vals = current_values (yyyymmdd_to_iso (group CURRENT_RE name 1))
                      (group CURRENT_RE name 2) name;
              legacy_name = current_legacy_name name;
              con' = import_current_file name rows con
          in legacy_name = ''v86_'' @ drop 4 name \<and>
             (\<forall>x\<in>set (v85 con').
                c_source_file x = name \<or> c_source_file x = legacy_name \<longrightarrow>
                x \<in> vals ` set rows) \<and>
             (\<forall>x\<in>set (v85 con'). c_source_file x \<noteq> legacy_name) \<and>
             (\<forall>x\<in>set (v85 con).
                c_source_file x \<noteq> name \<and> c_source_file x \<noteq> legacy_name \<and>
                ckey x \<notin> ckey ` vals ` set rows \<longrightarrow> x \<in> set (v85 con')) \<and>
             (\<forall>x\<in>set (v85 con). \<forall>r\<in>set rows.
                c_source_file x = legacy_name \<and> ckey (vals r) = ckey x \<longrightarrow>
                (\<exists>r'\<in>set rows. filter (\<lambda>y. ckey y = ckey x) (v85 con') = [vals r'] \<and>
                   c_source_file (vals r') = name))) \<and>
         (let vals = history_values (group HISTORY_RE hname 2) hname;
              legacy_name = history_legacy_name hname;
              con' = import_history_file hname hrows con
          in legacy_name = ''v86_history_'' @ drop 12 hname \<and>
             v85_history con' =
               filter (\<lambda>x. h_source_file x \<noteq> hname \<and> h_source_file x \<noteq> legacy_name)
                 (v85_history con) @ map vals hrows \<and>
             (\<forall>x\<in>set (v85_history con'). h_source_file x \<noteq> legacy_name))"
  using superseded_current [OF assms(1,2)]
    superseded_history [OF assms(3)]
  by blast

text \<open>
  C4 (history append semantics). Importing a History file deletes the rows attributed
  to its name or its alias and appends one row for every row of the file, whatever the
  table holds. After two different recognised History files are imported one after the
  other, the rows attributed to each are exactly its own rows. After the same file is
  imported twice, the rows attributed to it are its rows once, as after the first import.
\<close>

theorem history_rows_appended:
  assumes "matches HISTORY_RE f" and "matches HISTORY_RE g" and "f \<noteq> g"
  shows "let rows_f = map (history_values (group HISTORY_RE f 2) f) rows;
             rows_g = map (history_values (group HISTORY_RE g 2) g) rows';
             c1 = import_history_file f rows con;
             c2 = import_history_file g rows' c1;
             c3 = import_history_file f rows c1
         in v85_history c1 =
              filter (\<lambda>x. h_source_file x \<noteq> f \<and> h_source_file x \<noteq> history_legacy_name f)
                (v85_history con) @ rows_f \<and>
            filter (\<lambda>x. h_source_file x = f) (v85_history c2) = rows_f \<and>
            filter (\<lambda>x. h_source_file x = g) (v85_history c2) = rows_g \<and>
            filter (\<lambda>x. h_source_file x = f) (v85_history c1) = rows_f \<and>
            filter (\<lambda>x. h_source_file x = f) (v85_history c3) = rows_f \<and>
            length rows_f = length rows"
proof -
  have lg: "history_legacy_name g \<noteq> f"
    by (rule history_legacy_not_recognized [OF assms(2) assms(1)])
  have own: "filter (\<lambda>x. h_source_file x = n) (map (history_values a n) rs) =
        map (history_values a n) rs" for n a rs
    by (simp add: filter_id_conv)
  have other: "filter (\<lambda>x. h_source_file x = m) (map (history_values a n) rs) = []"
    if "m \<noteq> n" for m n a rs
    using that by (simp add: filter_empty_conv)
  have gone: "filter (\<lambda>x. h_source_file x = n)
        (filter (\<lambda>x. h_source_file x \<noteq> n \<and> h_source_file x \<noteq> l) T) = []" for n l T
    by (auto simp: filter_empty_conv)
  have stay: "filter (\<lambda>x. h_source_file x = f)
        (filter (\<lambda>x. h_source_file x \<noteq> g \<and> h_source_file x \<noteq> history_legacy_name g) T) =
        filter (\<lambda>x. h_source_file x = f) T" for T
    using assms(3) lg by (auto intro: filter_cong)
  show ?thesis
    unfolding Let_def v85_history_import_history_file filter_append
    using assms(3) by (simp only: own other gone stay append_Nil append_Nil2 length_map
        other [OF assms(3)] other [OF assms(3) [symmetric]])
qed

lemma trimmed_strip: "trimmed (strip s)"
proof -
  define t where "t = dropWhile isspace s"
  define u where "u = dropWhile isspace (rev t)"
  have s: "strip s = rev u"
    by (simp add: strip_def t_def u_def)
  show ?thesis
  proof (cases "u = []")
    case True
    then show ?thesis by (simp add: trimmed_def s)
  next
    case False
    then have "\<not> isspace (hd u)"
      unfolding u_def by (rule hd_dropWhile)
    then have l: "\<not> isspace (last (rev u))"
      using False by (simp add: last_rev)
    have "rev t \<noteq> []"
      using False by (auto simp: u_def)
    then have tne: "t \<noteq> []" by simp
    have "last u = last (rev t)"
      using False unfolding u_def by (metis last_appendR takeWhile_dropWhile_id)
    then have "hd (rev u) = hd t"
      using False tne by (simp add: hd_rev last_rev)
    moreover have "\<not> isspace (hd t)"
      using tne unfolding t_def by (rule hd_dropWhile)
    ultimately show ?thesis
      using l False by (simp add: trimmed_def s)
  qed
qed

lemma strip_decomposition:
  "\<exists>ws1 ws2. list_all isspace ws1 \<and> list_all isspace ws2 \<and> s = ws1 @ strip s @ ws2"
proof -
  define t where "t = dropWhile isspace s"
  have "s = takeWhile isspace s @ t"
    by (simp add: t_def)
  moreover have "rev t = takeWhile isspace (rev t) @ dropWhile isspace (rev t)"
    by simp
  then have "t = rev (dropWhile isspace (rev t)) @ rev (takeWhile isspace (rev t))"
    by (metis rev_append rev_rev_ident)
  then have "t = strip s @ rev (takeWhile isspace (rev t))"
    by (simp add: strip_def t_def)
  moreover have "list_all isspace (takeWhile isspace s)"
    by (simp add: list_all_iff) (meson set_takeWhileD)
  moreover have "list_all isspace (rev (takeWhile isspace (rev t)))"
    by (simp add: list_all_iff) (meson set_takeWhileD)
  ultimately show ?thesis
    by metis
qed

lemma strip_empty [simp]: "strip [] = []"
  by (simp add: strip_def)

lemma normalized_strip: "normalized (r k) (strip (or_empty (py_get r k)))"
  using strip_decomposition
  by (auto simp: normalized_def trimmed_strip py_get_def or_empty_def split: option.splits)

lemma normalized_strip_str: "normalized (r k) (strip (str_of (or_empty (py_get r k))))"
  using normalized_strip by (simp add: str_of_def)

lemma current_columns_normalized:
  "list_all (\<lambda>(label, column). normalized (r label) (column (current_values game_date avd name r)))
     current_columns"
  by (simp add: current_columns_def current_values_def normalized_strip)

lemma history_columns_normalized:
  "list_all (\<lambda>(label, column). normalized (r label) (column (history_values avd name r)))
     history_columns"
  by (simp add: history_columns_def history_values_def normalized_strip normalized_strip_str)

text \<open>
  C9 (normaliser totality). For every raw row, each value taken from the row for a
  Current or a History record is normalised: empty when the label is missing or its
  value is \<open>None\<close>, and otherwise the text of the field without the white space around
  it, \<open>placering\<close>, \<open>odds\<close> and \<open>pris\<close> included; date and division come from the file
  name. The normaliser has no error case, and a run whose files can all be read ends
  without error and counts every row of every file as imported.
\<close>

theorem rows_normalized_never_rejected:
  "list_all (\<lambda>(label, column). normalized (r label) (column (current_values game_date avd name r)))
     current_columns \<and>
   list_all (\<lambda>(label, column). normalized (r label) (column (history_values avd name r)))
     history_columns \<and>
   c_datum (current_values game_date avd name r) = game_date \<and>
   c_avd (current_values game_date avd name r) = avd \<and>
   h_avd (history_values avd name r) = avd \<and>
   (run_ok csv_dir skip_history \<longrightarrow>
      (\<exists>db'. main db csv_dir skip_history =
         (db', Inr (length (current_files csv_dir), total_rows (current_files csv_dir),
                   if skip_history then 0 else length (history_files csv_dir),
                   if skip_history then 0 else total_rows (history_files csv_dir)))))"
  using current_columns_normalized history_columns_normalized
  by (auto simp: main_ok current_values_def history_values_def)

section \<open>Retention of history rows\<close>

lemma sort_reverse_stable:
  "filter (\<lambda>x. f x = k) (sort_reverse f xs) = filter (\<lambda>x. f x = k) xs"
  by (simp add: sort_reverse_def rev_filter [symmetric] sort_key_stable)

lemma sort_reverse_descending: "sorted (rev (map f (sort_reverse f xs)))"
  by (simp add: sort_reverse_def rev_map)

lemma mset_sort_reverse: "mset (sort_reverse f xs) = mset xs"
  by (simp add: sort_reverse_def)

lemma set_sort_reverse: "set (sort_reverse f xs) = set xs"
  by (simp add: sort_reverse_def)

lemma slice_to_take: "0 \<le> n \<Longrightarrow> slice_to n xs = take (nat n) xs"
  by (simp add: slice_to_def)

lemma set_slice_to: "set (slice_to n xs) \<subseteq> set xs"
  by (auto simp: slice_to_def dest: in_set_takeD)

lemma hastnamn_start_rows: "r \<in> set (start_rows fetch_json s) \<Longrightarrow> hastnamn r = start_name s"
  by (auto simp: start_rows_def horse_rows_of_def split: option.splits)

lemma hastnamn_kept_rows: "r \<in> set (kept_rows fetch_json n s) \<Longrightarrow> hastnamn r = start_name s"
  using set_slice_to [of n "sort_reverse datum (start_rows fetch_json s)"]
  by (auto simp: kept_rows_def set_sort_reverse hastnamn_start_rows)

lemma collect_loop_step:
  assumes "truthy_id (s_id s)" and "fetch_json (start_id s) \<noteq> None"
  shows "collect_loop fetch_json n (s # starts) by_horse =
         collect_loop fetch_json n starts
           (AList.update (start_name s) (kept_rows fetch_json n s) by_horse)"
  using assms
  by (auto simp: Let_def start_name_def start_id_def kept_rows_def start_rows_def)

lemma collect_loop_skip:
  "\<not> truthy_id (s_id s) \<Longrightarrow>
   collect_loop fetch_json n (s # starts) by_horse = collect_loop fetch_json n starts by_horse"
  by simp

lemma collect_loop_result:
  assumes "\<forall>s\<in>set (valid_starts starts). fetch_json (start_id s) \<noteq> None"
  shows "collect_loop fetch_json n starts by_horse =
         Some (fold (\<lambda>s. AList.update (start_name s) (kept_rows fetch_json n s))
                 (valid_starts starts) by_horse)"
  using assms
proof (induction starts arbitrary: by_horse)
  case Nil
  then show ?case by (simp add: valid_starts_def)
next
  case (Cons s starts)
  show ?case
  proof (cases "truthy_id (s_id s)")
    case True
    then have f: "fetch_json (start_id s) \<noteq> None"
      and v: "valid_starts (s # starts) = s # valid_starts starts"
      using Cons.prems by (simp_all add: valid_starts_def)
    have rest: "\<forall>s\<in>set (valid_starts starts). fetch_json (start_id s) \<noteq> None"
      using Cons.prems by (simp add: v)
    have "collect_loop fetch_json n (s # starts) by_horse =
          collect_loop fetch_json n starts
            (AList.update (start_name s) (kept_rows fetch_json n s) by_horse)"
      using True f by (rule collect_loop_step)
    then show ?thesis
      unfolding Cons.IH [OF rest] v by simp
  next
    case False
    then have v: "valid_starts (s # starts) = valid_starts starts"
      by (simp add: valid_starts_def)
    have rest: "\<forall>s\<in>set (valid_starts starts). fetch_json (start_id s) \<noteq> None"
      using Cons.prems by (simp add: v)
    have "collect_loop fetch_json n (s # starts) by_horse =
          collect_loop fetch_json n starts by_horse"
      using False by (rule collect_loop_skip)
    then show ?thesis
      unfolding Cons.IH [OF rest] v by simp
  qed
qed

lemma fold_update_distinct_names:
  assumes "distinct (map nm ss)" and "distinct (map fst al)"
    and "\<forall>s\<in>set ss. nm s \<notin> fst ` set al"
  shows "fold (\<lambda>s. AList.update (nm s) (v s)) ss al = al @ map (\<lambda>s. (nm s, v s)) ss"
  using assms
proof (induction ss arbitrary: al)
  case Nil
  then show ?case by simp
next
  case (Cons s ss)
  have u: "AList.update (nm s) (v s) al = al @ [(nm s, v s)]"
    using Cons.prems(3) by (induction al) auto
  have "fold (\<lambda>s. AList.update (nm s) (v s)) ss (al @ [(nm s, v s)]) =
        (al @ [(nm s, v s)]) @ map (\<lambda>s. (nm s, v s)) ss"
  proof (rule Cons.IH)
    show "distinct (map nm ss)"
      using Cons.prems(1) by simp
    show "distinct (map fst (al @ [(nm s, v s)]))"
      using Cons.prems(2,3) by simp
    show "\<forall>t\<in>set ss. nm t \<notin> fst ` set (al @ [(nm s, v s)])"
      using Cons.prems(1,3) by (auto simp: image_iff)
  qed
  then show ?case
    by (simp add: u)
qed

lemma sorted_names_concat:
  assumes "sorted keys" and "\<And>h r. h \<in> set keys \<Longrightarrow> r \<in> set (B h) \<Longrightarrow> name r = h"
  shows "sorted (map name (concat (map B keys)))"
  using assms
proof (induction keys)
  case Nil
  then show ?case by simp
next
  case (Cons k keys)
  have "sorted (map name (B k))"
  proof -
    have "map name (B k) = replicate (length (B k)) k"
      using Cons.prems(2) [of k] by (simp add: map_replicate_const [symmetric] cong: map_cong)
    then show ?thesis by (simp add: sorted_replicate)
  qed
  moreover have "sorted (map name (concat (map B keys)))"
    using Cons by auto
  moreover have "name x \<le> name y"
    if x: "x \<in> set (B k)" and y: "y \<in> set (concat (map B keys))" for x y
  proof -
    obtain h where h: "h \<in> set keys" "y \<in> set (B h)"
      using y by auto
    have "name x = k" and "name y = h"
      using Cons.prems(2) x h by simp_all
    then show ?thesis
      using Cons.prems(1) h(1) by simp
  qed
  ultimately show ?case
    by (auto simp: sorted_append)
qed

lemma filter_name_concat:
  assumes "distinct keys" and "\<And>h r. h \<in> set keys \<Longrightarrow> r \<in> set (B h) \<Longrightarrow> name r = h"
  shows "filter (\<lambda>r. name r = k) (concat (map B keys)) = (if k \<in> set keys then B k else [])"
  using assms
proof (induction keys)
  case Nil
  then show ?case by simp
next
  case (Cons h keys)
  have this_block: "filter (\<lambda>r. name r = k) (B h) = (if k = h then B h else [])"
    using Cons.prems(2) [of h] by (auto simp: filter_id_conv filter_empty_conv)
  have rest: "filter (\<lambda>r. name r = k) (concat (map B keys)) = (if k \<in> set keys then B k else [])"
    using Cons by auto
  show ?case
    using Cons.prems(1) by (auto simp: this_block rest)
qed

lemma collect_history_rows_distinct:
  assumes "distinct (map start_name (valid_starts starts))"
    and "\<forall>s\<in>set (valid_starts starts). fetch_json (start_id s) \<noteq> None"
  shows "collect_history_rows fetch_json starts n =
         Some (concat (map (\<lambda>h. case map_of (map (\<lambda>s. (start_name s, kept_rows fetch_json n s))
                                              (valid_starts starts)) h of
                                   Some rows \<Rightarrow> rows | None \<Rightarrow> [])
                         (sort (map start_name (valid_starts starts)))))"
proof -
  define al where "al = map (\<lambda>s. (start_name s, kept_rows fetch_json n s)) (valid_starts starts)"
  have "fold (\<lambda>s. AList.update (start_name s) (kept_rows fetch_json n s)) (valid_starts starts) [] =
        [] @ al"
    unfolding al_def using assms(1) by (intro fold_update_distinct_names) simp_all
  then have "collect_loop fetch_json n starts [] = Some al"
    using collect_loop_result [OF assms(2), of n "[]"] by simp
  moreover have "map fst al = map start_name (valid_starts starts)"
    by (simp add: al_def comp_def)
  ultimately show ?thesis
    by (simp add: collect_history_rows_def al_def [symmetric])
qed

lemma map_of_kept:
  assumes "distinct (map start_name ss)" and "s \<in> set ss"
  shows "map_of (map (\<lambda>s. (start_name s, kept_rows fetch_json n s)) ss) (start_name s) =
         Some (kept_rows fetch_json n s)"
  using assms by (induction ss) (auto simp: image_iff)

text \<open>
  C5 (retention policy), amended. Let the cap be at least 1, let the starts that are not
  skipped file their rows under pairwise different names, and let every fetch return.
  Then \<open>collect_history_rows\<close> returns a list in which the horse names ascend, the rows
  of each start are exactly the first \<open>n\<close> of its rows sorted by date, and no other row
  occurs. The sort gives the dates in descending order, keeps every row, and keeps rows
  of the same date in the order of the reply. The importer stores one row for every row
  of a History file it reads: it truncates nothing.
\<close>

theorem retention_per_horse:
  assumes "1 \<le> n"
    and "distinct (map start_name (valid_starts starts))"
    and "\<forall>s\<in>set (valid_starts starts). fetch_json (start_id s) \<noteq> None"
  shows "\<exists>out. collect_history_rows fetch_json starts n = Some out \<and>
           sorted (map hastnamn out) \<and>
           (\<forall>s\<in>set (valid_starts starts).
              filter (\<lambda>r. hastnamn r = start_name s) out =
                take (nat n) (sort_reverse datum (start_rows fetch_json s))) \<and>
           (\<forall>r\<in>set out. hastnamn r \<in> start_name ` set (valid_starts starts)) \<and>
           (\<forall>s. sorted (rev (map datum (sort_reverse datum (start_rows fetch_json s)))) \<and>
                mset (sort_reverse datum (start_rows fetch_json s)) =
                  mset (start_rows fetch_json s) \<and>
                (\<forall>d. filter (\<lambda>r. datum r = d) (sort_reverse datum (start_rows fetch_json s)) =
                       filter (\<lambda>r. datum r = d) (start_rows fetch_json s))) \<and>
           filter (\<lambda>x. h_source_file x = name) (v85_history (import_history_file name rows con)) =
             map (history_values (group HISTORY_RE name 2) name) rows"
proof -
  let ?vs = "valid_starts starts"
  define al where "al = map (\<lambda>s. (start_name s, kept_rows fetch_json n s)) ?vs"
  define B where "B = (\<lambda>h. case map_of al h of Some rows \<Rightarrow> rows | None \<Rightarrow> [])"
  define keys where "keys = sort (map start_name ?vs)"
  define out where "out = concat (map B keys)"
  have res: "collect_history_rows fetch_json starts n = Some out"
    unfolding out_def B_def keys_def al_def
    using assms(2,3) by (rule collect_history_rows_distinct)
  have B: "B (start_name s) = kept_rows fetch_json n s" if "s \<in> set ?vs" for s
    unfolding B_def al_def by (simp add: map_of_kept [OF assms(2) that, of fetch_json n])
  have keys: "set keys = start_name ` set ?vs" "sorted keys" "distinct keys"
    using assms(2) by (simp_all add: keys_def)
  have names: "hastnamn r = h" if h: "h \<in> set keys" and r: "r \<in> set (B h)" for h r
  proof -
    obtain s where s: "s \<in> set ?vs" "h = start_name s"
      using h keys(1) by auto
    then show ?thesis
      using r B [OF s(1)] hastnamn_kept_rows by metis
  qed
  have 1: "sorted (map hastnamn out)"
    unfolding out_def using keys(2) names by (rule sorted_names_concat)
  have 2: "filter (\<lambda>r. hastnamn r = start_name s) out =
        take (nat n) (sort_reverse datum (start_rows fetch_json s))" if "s \<in> set ?vs" for s
  proof -
    have "filter (\<lambda>r. hastnamn r = start_name s) out =
          (if start_name s \<in> set keys then B (start_name s) else [])"
      unfolding out_def using keys(3) names by (rule filter_name_concat)
    then show ?thesis
      using that keys(1) B [OF that] assms(1) by (simp add: kept_rows_def slice_to_take)
  qed
  have 3: "hastnamn r \<in> start_name ` set ?vs" if "r \<in> set out" for r
    using that names keys(1) unfolding out_def by auto
  have 4: "filter (\<lambda>x. h_source_file x = name)
              (v85_history (import_history_file name rows con)) =
            map (history_values (group HISTORY_RE name 2) name) rows"
    by (auto simp: v85_history_import_history_file filter_id_conv filter_empty_conv)
  show ?thesis
    using res 1 2 3 4 sort_reverse_descending [of datum] mset_sort_reverse [of datum]
      sort_reverse_stable [of datum]
    by blast
qed

section \<open>The statements on the example data\<close>

lemmas ex_defs = ex_row_def ex_current_def ex_history_row_def ex_history_def ex_unreadable_def
  ex_other_def ex_stored_def ex_written_def ex_db_def

lemma ex_dict_reader:
  "dict_reader ex_records = [ex_row]"
  "dict_reader ex_history_records = [ex_history_row]"
  by (simp_all add: dict_reader_def ex_records_def ex_history_records_def ex_row_def
      ex_history_row_def)

lemma ex_row_entries:
  "ex_row col_hastnamn = Some (Some '' Odin '')"
  "ex_row ''kusk'' = Some None"
  "ex_row ''vagn'' = None"
  "ex_history_row ''placering'' = Some (Some '' 1'')"
  by (simp_all add: ex_row_def ex_history_row_def to_dict_def col_hastnamn_def)

lemma ex_vals:
  "current_values (yyyymmdd_to_iso (group CURRENT_RE ''v85_20260101_1.csv'' 1))
     (group CURRENT_RE ''v85_20260101_1.csv'' 2) ''v85_20260101_1.csv'' ex_row = ex_written"
  by (simp add: current_values_def yyyymmdd_to_iso_def group_def CURRENT_RE_def ex_defs
      to_dict_def py_get_def or_empty_def strip_def isspace_def col_hastnamn_def
      col_tranare_def)

theorem load_current_upsert_witness:
  "unique_keys (ex_db ''other.csv'') \<and>
   filter (\<lambda>x. ckey x = (''2026-01-01'', ''1'', ''Odin''))
     (v85 (import_current_file ''v85_20260101_1.csv'' [ex_row] (ex_db ''other.csv''))) =
     [ex_written] \<and>
   v85 (insert_v85 ex_written (ex_db ''other.csv'')) = [ex_written]"
proof -
  have u: "unique_keys (ex_db ''other.csv'')"
    by (simp add: unique_keys_def ex_db_def)
  have k: "ckey ex_written = (''2026-01-01'', ''1'', ''Odin'')"
    by (simp add: ckey_def ex_written_def)
  have k': "ckey (ex_stored ''other.csv'') = (''2026-01-01'', ''1'', ''Odin'')"
    by (simp add: ckey_def ex_stored_def)
  have "v85 (insert_v85 ex_written (ex_db ''other.csv'')) = [ex_written]"
    by (simp add: insert_v85_def ex_db_def upsert_conv k k')
  moreover have "ex_row \<in> set [ex_row]"
    by simp
  note load_current_upsert [OF u this, of "''v85_20260101_1.csv''" ex_written,
      unfolded Let_def ex_vals k]
  ultimately show ?thesis
    using u by (simp add: ex_vals [unfolded One_nat_def] k)
qed

lemma ex_matches:
  "matches CURRENT_RE ''v85_20260101_1.csv''"
  "\<not> matches HISTORY_RE ''v85_20260101_1.csv''"
  "matches HISTORY_RE ''v85_history_20260101_1.csv''"
  "\<not> matches CURRENT_RE ''v85_history_20260101_1.csv''"
  "matches HISTORY_RE ''v85_history_20260102_1.csv''"
  "\<not> matches CURRENT_RE ''v85_history_20260102_1.csv''"
  "\<not> matches CURRENT_RE ''notes.txt''"
  "\<not> matches HISTORY_RE ''notes.txt''"
  by (simp_all add: matches_def CURRENT_RE_def HISTORY_RE_def)

lemma ex_history_vals:
  "history_values (group HISTORY_RE ''v85_history_20260101_1.csv'' 2)
     ''v85_history_20260101_1.csv'' ex_history_row = ex_history_written"
  by (simp add: history_values_def group_def HISTORY_RE_def ex_history_row_def to_dict_def
      ex_history_written_def py_get_def or_empty_def str_of_def strip_def isspace_def
      col_hastnamn_def col_distans_spar_def)

lemma ex_legacy:
  "current_legacy_name ''v85_20260101_1.csv'' = ''v86_20260101_1.csv''"
  "history_legacy_name ''v85_history_20260101_1.csv'' = ''v86_history_20260101_1.csv''"
  by (simp_all add: current_legacy_name_def history_legacy_name_def)

lemma ex_import_current:
  "import_current_file ''v85_20260101_1.csv'' [ex_row] \<lparr>v85 = [ex_stored s], v85_history = H\<rparr> =
     \<lparr>v85 = [ex_written], v85_history = H\<rparr>"
  "import_current_file ''v85_20260101_1.csv'' [ex_row] \<lparr>v85 = [ex_written], v85_history = H\<rparr> =
     \<lparr>v85 = [ex_written], v85_history = H\<rparr>"
  by (simp_all add: import_current_file_def Let_def ex_vals [unfolded One_nat_def] ex_legacy
      delete_v85_def insert_v85_def upsert_conv ckey_def ex_stored_def ex_written_def)

lemma ex_import_history:
  "import_history_file ''v85_history_20260101_1.csv'' [ex_history_row]
     \<lparr>v85 = T, v85_history = []\<rparr> = \<lparr>v85 = T, v85_history = [ex_history_written]\<rparr>"
  "import_history_file ''v85_history_20260101_1.csv'' [ex_history_row]
     \<lparr>v85 = T, v85_history = [ex_history_written]\<rparr> =
     \<lparr>v85 = T, v85_history = [ex_history_written]\<rparr>"
  by (simp_all add: import_history_file_def Let_def ex_history_vals ex_legacy
      delete_v85_history_def insert_v85_history_def ex_history_written_def)

lemma ex_main:
  "main (ex_db s) ex_dir False = (ex_db1, Inr (1, 1, 1, 1))"
  "main ex_db1 ex_dir False = (ex_db1, Inr (1, 1, 1, 1))"
  by (simp_all add: main_def load_current_def load_history_def ex_dir_def ex_other_def
      ex_history_def ex_current_def ex_matches ex_dict_reader ex_import_current
      ex_import_history ex_db_def ex_db1_def)

theorem import_idempotent_witness:
  "unique_keys (ex_db ''v86_20260101_1.csv'') \<and>
   distinct (map path_name ex_dir) \<and>
   main (ex_db ''v86_20260101_1.csv'') ex_dir False = (ex_db1, Inr (1, 1, 1, 1)) \<and>
   (\<exists>db2. main ex_db1 ex_dir False = (db2, Inr (1, 1, 1, 1)) \<and>
      mset (v85 db2) = mset (v85 ex_db1) \<and> mset (v85_history db2) = mset (v85_history ex_db1))"
proof -
  have u: "unique_keys (ex_db ''v86_20260101_1.csv'')"
    by (simp add: unique_keys_def ex_db_def)
  have d: "distinct (map path_name ex_dir)"
    by (simp add: ex_dir_def ex_other_def ex_history_def ex_current_def)
  show ?thesis
    using u d ex_main(1) [of "''v86_20260101_1.csv''"]
      import_idempotent [OF u, of _ _ ex_dir False ex_db1 "(1, 1, 1, 1)"]
    by blast
qed

theorem legacy_rows_superseded_witness:
  "matches CURRENT_RE ''v85_20260101_1.csv'' \<and>
   unique_keys (ex_db ''v86_20260101_1.csv'') \<and>
   matches HISTORY_RE ''v85_history_20260101_1.csv'' \<and>
   current_legacy_name ''v85_20260101_1.csv'' = ''v86_'' @ drop 4 ''v85_20260101_1.csv'' \<and>
   v85 (ex_db ''v86_20260101_1.csv'') = [ex_stored ''v86_20260101_1.csv''] \<and>
   v85 (import_current_file ''v85_20260101_1.csv'' [ex_row] (ex_db ''v86_20260101_1.csv'')) =
     [ex_written]"
proof -
  have u: "unique_keys (ex_db ''v86_20260101_1.csv'')"
    by (simp add: unique_keys_def ex_db_def)
  note t = legacy_rows_superseded [OF ex_matches(1) u ex_matches(3), of "[ex_row]",
      unfolded Let_def]
  from t have "current_legacy_name ''v85_20260101_1.csv'' = ''v86_'' @ drop 4 ''v85_20260101_1.csv''"
    by blast
  then show ?thesis
    using u ex_matches(1,3) by (simp add: ex_db_def ex_import_current)
qed

theorem history_rows_appended_witness:
  "matches HISTORY_RE ''v85_history_20260101_1.csv'' \<and>
   matches HISTORY_RE ''v85_history_20260102_1.csv'' \<and>
   ''v85_history_20260101_1.csv'' \<noteq> ''v85_history_20260102_1.csv'' \<and>
   map (\<lambda>x. (h_source_file x, h_hastnamn x))
     (v85_history
        (import_history_file ''v85_history_20260102_1.csv'' [ex_history_row]
           (import_history_file ''v85_history_20260101_1.csv'' [ex_history_row]
              \<lparr>v85 = [], v85_history = []\<rparr>))) =
     [(''v85_history_20260101_1.csv'', ''Odin''), (''v85_history_20260102_1.csv'', ''Odin'')] \<and>
   v85_history
     (import_history_file ''v85_history_20260101_1.csv'' [ex_history_row]
        (import_history_file ''v85_history_20260101_1.csv'' [ex_history_row]
           \<lparr>v85 = [], v85_history = []\<rparr>)) = [ex_history_written]"
proof -
  have ne: "''v85_history_20260101_1.csv'' \<noteq> ''v85_history_20260102_1.csv''"
    by simp
  note t = history_rows_appended [OF ex_matches(3) ex_matches(5) ne,
      where rows = "[ex_history_row]" and con = "\<lparr>v85 = [], v85_history = []\<rparr>"
        and rows' = "[ex_history_row]", unfolded Let_def]
  have 1: "v85_history
     (import_history_file ''v85_history_20260101_1.csv'' [ex_history_row]
        \<lparr>v85 = [], v85_history = []\<rparr>) = [ex_history_written]"
    using t by (simp add: ex_history_vals)
  have 2: "v85_history
        (import_history_file ''v85_history_20260102_1.csv'' [ex_history_row]
           (import_history_file ''v85_history_20260101_1.csv'' [ex_history_row]
              \<lparr>v85 = [], v85_history = []\<rparr>)) =
        [ex_history_written,
         history_values (group HISTORY_RE ''v85_history_20260102_1.csv'' 2)
           ''v85_history_20260102_1.csv'' ex_history_row]"
    by (simp add: v85_history_import_history_file ex_history_vals history_legacy_name_def
        ex_history_written_def)
  have 3: "map (\<lambda>x. (h_source_file x, h_hastnamn x))
     (v85_history
        (import_history_file ''v85_history_20260102_1.csv'' [ex_history_row]
           (import_history_file ''v85_history_20260101_1.csv'' [ex_history_row]
              \<lparr>v85 = [], v85_history = []\<rparr>))) =
     [(''v85_history_20260101_1.csv'', ''Odin''), (''v85_history_20260102_1.csv'', ''Odin'')]"
    unfolding 2
    by (simp add: ex_history_written_def history_values_def ex_history_row_def to_dict_def
        py_get_def or_empty_def strip_def isspace_def col_hastnamn_def)
  have 4: "v85_history
     (import_history_file ''v85_history_20260101_1.csv'' [ex_history_row]
        (import_history_file ''v85_history_20260101_1.csv'' [ex_history_row]
           \<lparr>v85 = [], v85_history = []\<rparr>)) = [ex_history_written]"
    using 1 by (simp add: ex_import_history)
  show ?thesis
    using ex_matches(3,5) ne 3 4 by blast
qed

theorem parse_failure_commits_nothing_witness:
  "ex_unreadable \<in> set [ex_current, ex_unreadable] \<and>
   is_file ex_unreadable \<and> contents ex_unreadable = None \<and>
   matches HISTORY_RE (path_name ex_unreadable) \<and>
   main (ex_db ''v86_20260101_1.csv'') [ex_current, ex_unreadable] False =
     (ex_db ''v86_20260101_1.csv'', Inl (ReadError ''v85_history_20260102_1.csv'')) \<and>
   main (ex_db ''v86_20260101_1.csv'') [ex_current, ex_unreadable] True =
     (\<lparr>v85 = [ex_written], v85_history = []\<rparr>, Inr (1, 1, 0, 0))"
proof -
  have h: "ex_unreadable \<in> set [ex_current, ex_unreadable]" "is_file ex_unreadable"
    "contents ex_unreadable = None"
    "matches CURRENT_RE (path_name ex_unreadable) \<or>
     (\<not> False \<and> matches HISTORY_RE (path_name ex_unreadable))"
    by (simp_all add: ex_unreadable_def ex_matches)
  obtain e where
    "main (ex_db ''v86_20260101_1.csv'') [ex_current, ex_unreadable] False =
       (ex_db ''v86_20260101_1.csv'', Inl e)"
    using parse_failure_commits_nothing [OF h] by blast
  moreover have
    "snd (main (ex_db ''v86_20260101_1.csv'') [ex_current, ex_unreadable] False) =
       Inl (ReadError ''v85_history_20260102_1.csv'')"
    by (simp add: main_def load_current_def load_history_def ex_unreadable_def ex_current_def
        ex_matches ex_dict_reader ex_import_current ex_db_def)
  moreover have "main (ex_db ''v86_20260101_1.csv'') [ex_current, ex_unreadable] True =
     (\<lparr>v85 = [ex_written], v85_history = []\<rparr>, Inr (1, 1, 0, 0))"
    by (simp add: main_def load_current_def ex_unreadable_def ex_current_def
        ex_matches ex_dict_reader ex_import_current ex_db_def)
  ultimately show ?thesis
    using h by (simp add: ex_unreadable_def ex_matches)
qed

theorem unrecognized_file_ignored_witness:
  "\<not> matches CURRENT_RE (path_name ex_other) \<and> \<not> matches HISTORY_RE (path_name ex_other) \<and>
   is_file ex_current \<and> matches CURRENT_RE (path_name ex_current) \<and>
   contents ex_current = Some ex_records \<and>
   main (ex_db []) [ex_other, ex_current] False = main (ex_db []) [ex_current] False \<and>
   snd (main (ex_db []) [ex_current, ex_other] False) = Inr (1, 1, 0, 0)"
proof -
  have h: "\<not> matches CURRENT_RE (path_name ex_other)" "\<not> matches HISTORY_RE (path_name ex_other)"
    by (simp_all add: ex_other_def ex_matches)
  have c: "is_file ex_current \<and> matches CURRENT_RE (path_name ex_current) \<and>
   contents ex_current = Some ex_records"
    by (simp add: ex_current_def ex_matches)
  have r: "rows_of ex_current = [ex_row]"
    by (simp add: rows_of_def ex_current_def ex_dict_reader)
  show ?thesis
    using h c unrecognized_file_ignored [OF h, of "ex_db []" "[]" "[ex_current]" False
        ex_current]
    by (simp add: r)
qed

theorem rows_normalized_never_rejected_witness:
  "run_ok ex_dir False \<and>
   main (ex_db []) ex_dir False = (ex_db1, Inr (1, 1, 1, 1)) \<and>
   ex_row col_hastnamn = Some (Some '' Odin '') \<and>
   ex_row ''kusk'' = Some None \<and> ex_row ''vagn'' = None \<and>
   c_hastnamn ex_written = ''Odin'' \<and> c_kusk ex_written = [] \<and> c_vagn ex_written = [] \<and>
   normalized (ex_row col_hastnamn) (c_hastnamn ex_written) \<and>
   ex_history_row ''placering'' = Some (Some '' 1'') \<and> h_placering ex_history_written = ''1''"
proof -
  have c: "current_files ex_dir = [ex_current]" and h: "history_files ex_dir = [ex_history]"
    by (simp_all add: current_files_def history_files_def ex_dir_def ex_other_def
        ex_history_def ex_current_def ex_matches)
  have ok: "run_ok ex_dir False"
    by (simp add: run_ok_def c h) (simp add: ex_current_def ex_history_def)
  note t = rows_normalized_never_rejected [where r = ex_row
      and game_date = "yyyymmdd_to_iso (group CURRENT_RE ''v85_20260101_1.csv'' 1)"
      and avd = "group CURRENT_RE ''v85_20260101_1.csv'' 2" and name = "''v85_20260101_1.csv''"
      and csv_dir = ex_dir and skip_history = False and db = "ex_db []", unfolded ex_vals]
  from t have "list_all (\<lambda>(label, column). normalized (ex_row label) (column ex_written))
     current_columns"
    by (rule conjunct1)
  then have "normalized (ex_row col_hastnamn) (c_hastnamn ex_written)"
    by (simp add: current_columns_def)
  then show ?thesis
    using ok ex_main(1) [of "[]"]
    by (simp add: ex_row_entries ex_written_def ex_history_written_def)
qed


lemma ex_collect:
  "collect_history_rows ex_fetch [ex_start ''Bo '' 2, ex_start ''Al'' 1] 5 =
     Some [ex_out ''Al'' ''2026-01-08'', ex_out ''Al'' ''2026-01-07'', ex_out ''Al'' ''2026-01-06'',
           ex_out ''Al'' ''2026-01-05'', ex_out ''Al'' ''2026-01-04'', ex_out ''Bo'' ''2025-12-24'']"
  by code_simp

lemma ex_collect_same_name:
  "collect_history_rows ex_fetch [ex_start ''Bo'' 2, ex_start ''Bo'' 3] 5 = Some []"
  by code_simp

lemma ex_rows_first: "take 5 (sort_reverse datum (start_rows ex_fetch (ex_start ''Bo'' 2))) =
   [ex_out ''Bo'' ''2025-12-24'']"
  by code_simp

theorem retention_per_horse_witness:
  "(1::int) \<le> 5 \<and>
   distinct (map start_name (valid_starts [ex_start ''Bo '' 2, ex_start ''Al'' 1])) \<and>
   list_all (\<lambda>s. ex_fetch (start_id s) \<noteq> None)
     (valid_starts [ex_start ''Bo '' 2, ex_start ''Al'' 1]) \<and>
   collect_history_rows ex_fetch [ex_start ''Bo '' 2, ex_start ''Al'' 1] 5 =
     Some [ex_out ''Al'' ''2026-01-08'', ex_out ''Al'' ''2026-01-07'', ex_out ''Al'' ''2026-01-06'',
           ex_out ''Al'' ''2026-01-05'', ex_out ''Al'' ''2026-01-04'', ex_out ''Bo'' ''2025-12-24''] \<and>
   sorted (map hastnamn
     [ex_out ''Al'' ''2026-01-08'', ex_out ''Al'' ''2026-01-07'', ex_out ''Al'' ''2026-01-06'',
      ex_out ''Al'' ''2026-01-05'', ex_out ''Al'' ''2026-01-04'', ex_out ''Bo'' ''2025-12-24''])"
proof -
  have h1: "(1::int) \<le> 5"
    by simp
  have h2: "distinct (map start_name (valid_starts [ex_start ''Bo '' 2, ex_start ''Al'' 1]))"
    by code_simp
  have h3: "\<forall>s\<in>set (valid_starts [ex_start ''Bo '' 2, ex_start ''Al'' 1]).
      ex_fetch (start_id s) \<noteq> None"
    by (simp add: ex_fetch_def)
  obtain out where
    "collect_history_rows ex_fetch [ex_start ''Bo '' 2, ex_start ''Al'' 1] 5 = Some out"
    and "sorted (map hastnamn out)"
    using retention_per_horse [OF h1 h2 h3] by blast
  then show ?thesis
    using h1 h2 h3 by (simp add: ex_collect list_all_iff)
qed

text \<open>
  C5 as stated fails when two starts bear the same name: the rows of the second start
  replace those of the first in \<open>by_horse\<close>. Here the first horse has one result and the
  cap is 5, and the output has no row at all.
\<close>

theorem same_name_starts_lose_rows:
  "collect_history_rows ex_fetch [ex_start ''Bo'' 2, ex_start ''Bo'' 3] 5 = Some [] \<and>
   take 5 (sort_reverse datum (start_rows ex_fetch (ex_start ''Bo'' 2))) =
     [ex_out ''Bo'' ''2025-12-24'']"
  using ex_collect_same_name ex_rows_first by simp

text \<open>
  C6 as stated fails for a recognised file that has no header: reading it raises
  nothing, the run ends without error, and the rows stored for the file are deleted.
\<close>

theorem headerless_file_not_fatal:
  "is_file ex_empty \<and> matches CURRENT_RE (path_name ex_empty) \<and> contents ex_empty = Some [] \<and>
   main (ex_db ''v85_20260101_1.csv'') [ex_empty] False =
     (\<lparr>v85 = [], v85_history = []\<rparr>, Inr (1, 0, 0, 0)) \<and>
   ex_db ''v85_20260101_1.csv'' \<noteq> \<lparr>v85 = [], v85_history = []\<rparr>"
  by (simp add: main_def load_current_def load_history_def ex_empty_def ex_matches
      dict_reader_def import_current_file_def Let_def ex_legacy delete_v85_def ex_db_def
      ex_stored_def)

end
